theory Spec2Isabelle
  imports Complex_Main "HOL-Library.Sublist"
begin

section \<open>Strings and the replacement of literal text\<close>

text \<open>
  A JavaScript string is modelled as a \<open>string\<close> (a list of 8-bit characters), so the model
  covers text whose code units are below 256.

  This section is \<open>String.prototype.replace\<close> with a global regular expression that
  spells a literal, non-empty text, as the six expressions of \<open>Template._escape\<close> do, and
  with a replacement string.  In a replacement string the host language gives a meaning
  to the dollar sign: \<open>$$\<close> stands for a dollar sign, \<open>$&\<close> for the matched text,
  \<open>$`\<close> for the part of the subject before the match and \<open>$'\<close> for the part after it.
  A literal text has no capture group, so a dollar sign followed by anything else stands
  for itself.
\<close>

fun expand :: "string \<Rightarrow> string \<Rightarrow> string \<Rightarrow> string \<Rightarrow> string" where
  "expand pre m post [] = []"
| "expand pre m post [c] = [c]"
| "expand pre m post (c # d # ds) =
     (if c = CHR ''$'' then
        (if d = CHR ''$'' then CHR ''$'' # expand pre m post ds
         else if d = CHR ''&'' then m @ expand pre m post ds
         else if d = CHR ''`'' then pre @ expand pre m post ds
         else if d = CHR 0x27 then post @ expand pre m post ds
         else c # expand pre m post (d # ds))
      else c # expand pre m post (d # ds))"

text \<open>
  \<open>replace_from pat repl pre s\<close> scans \<open>s\<close> from the left for the literal \<open>pat\<close>;
  \<open>pre\<close> is the part of the subject already passed.  Matches are taken leftmost first
  and do not overlap; the text between matches is copied.  The empty pattern does not
  occur in the source and is left alone here.
\<close>

function replace_from :: "string \<Rightarrow> string \<Rightarrow> string \<Rightarrow> string \<Rightarrow> string" where
  "replace_from pat repl pre [] = []"
| "replace_from pat repl pre (c # cs) =
     (if pat \<noteq> [] \<and> prefix pat (c # cs)
      then expand pre pat (drop (length pat) (c # cs)) repl
           @ replace_from pat repl (pre @ pat) (drop (length pat) (c # cs))
      else c # replace_from pat repl (pre @ [c]) cs)"
  by pat_completeness auto
termination
  by (relation "measure (\<lambda>(pat, repl, pre, s). length s)") (auto simp: prefix_def)

definition replace_all :: "string \<Rightarrow> string \<Rightarrow> string \<Rightarrow> string" where
  "replace_all pat repl s = replace_from pat repl [] s"

section \<open>Numbers of the host language\<close>

text \<open>
  A Number is a binary64 floating-point value.  A finite one is modelled by the rational
  it denotes; the two zeros are not told apart (the totals of the source start from
  \<open>0\<close>, and \<open>0 + (-0)\<close> is \<open>0\<close>).  \<open>round64\<close> rounds a rational to the nearest
  binary64 value, ties to even, with gradual underflow and with overflow to infinity.
\<close>

definition is_digit :: "char \<Rightarrow> bool" where
  "is_digit c = (c \<in> set ''0123456789'')"

datatype number = NaN | PInf | NInf | Fin rat

function bit_length :: "int \<Rightarrow> nat" where
  "bit_length n = (if n \<le> 0 then 0 else Suc (bit_length (n div 2)))"
  by pat_completeness auto
termination
  by (relation "measure nat") auto

declare bit_length.simps [simp del]

definition pow2 :: "int \<Rightarrow> rat" where
  "pow2 e = (if 0 \<le> e then 2 ^ nat e else 1 / 2 ^ nat (- e))"

definition floor_log2 :: "rat \<Rightarrow> int" where
  "floor_log2 a =
     (if 1 \<le> a then int (bit_length \<lfloor>a\<rfloor>) - 1
      else - int (bit_length (\<lceil>1 / a\<rceil> - 1)))"

definition round_half_even :: "rat \<Rightarrow> int" where
  "round_half_even x =
     (let f = \<lfloor>x\<rfloor>; d = x - of_int f
      in if d < 1 / 2 then f else if 1 / 2 < d then f + 1
         else if even f then f else f + 1)"

definition round64 :: "rat \<Rightarrow> number" where
  "round64 q =
     (if q = 0 then Fin 0
      else let a = \<bar>q\<bar>;
               e = max (floor_log2 a) (- 1022);
               u = pow2 (e - 52);
               r = of_int (round_half_even (a / u)) * u
           in if 2 ^ 1024 \<le> r then (if 0 < q then PInf else NInf)
              else Fin (if 0 < q then r else - r))"

text \<open>The operator \<open>+\<close> on two Numbers.\<close>

fun num_add :: "number \<Rightarrow> number \<Rightarrow> number" where
  "num_add NaN y = NaN"
| "num_add x NaN = NaN"
| "num_add PInf NInf = NaN"
| "num_add NInf PInf = NaN"
| "num_add PInf y = PInf"
| "num_add x PInf = PInf"
| "num_add NInf y = NInf"
| "num_add x NInf = NInf"
| "num_add (Fin x) (Fin y) = round64 (x + y)"

text \<open>
  The conversion of a string to a Number (\<open>text * 1\<close>): white space is trimmed, the
  empty string is \<open>0\<close>, a decimal literal with an optional sign, fraction and exponent,
  \<open>Infinity\<close> with an optional sign, or an unsigned binary, octal or hexadecimal
  integer literal denotes its value rounded to binary64, and any other text is \<open>NaN\<close>.
\<close>

definition is_space :: "char \<Rightarrow> bool" where
  "is_space c = (c \<in> set [CHR 0x09, CHR 0x0A, CHR 0x0B, CHR 0x0C, CHR 0x0D, CHR 0x20, CHR 0xA0])"

definition trim :: "string \<Rightarrow> string" where
  "trim s = rev (dropWhile is_space (rev (dropWhile is_space s)))"

definition digit_value :: "char \<Rightarrow> int" where
  "digit_value c =
     (case map_of (zip ''0123456789abcdef'' [0, 1, 2, 3, 4, 5, 6, 7, 8, 9, 10, 11, 12, 13, 14, 15]) c of
        Some v \<Rightarrow> v
      | None \<Rightarrow>
          (case map_of (zip ''ABCDEF'' [10, 11, 12, 13, 14, 15]) c of
             Some v \<Rightarrow> v
           | None \<Rightarrow> 16))"

definition digits_value :: "int \<Rightarrow> string \<Rightarrow> int" where
  "digits_value base ds = foldl (\<lambda>acc d. acc * base + digit_value d) 0 ds"

definition all_digits :: "int \<Rightarrow> string \<Rightarrow> bool" where
  "all_digits base ds = (ds \<noteq> [] \<and> list_all (\<lambda>d. digit_value d < base) ds)"

definition parse_exponent :: "string \<Rightarrow> int option" where
  "parse_exponent r =
     (case r of
        [] \<Rightarrow> Some 0
      | c # t \<Rightarrow>
          if c = CHR ''e'' \<or> c = CHR ''E'' then
            (case t of
               [] \<Rightarrow> None
             | d # ds \<Rightarrow>
                 if d = CHR ''-'' then
                   (if all_digits 10 ds then Some (- digits_value 10 ds) else None)
                 else if d = CHR ''+'' then
                   (if all_digits 10 ds then Some (digits_value 10 ds) else None)
                 else (if all_digits 10 t then Some (digits_value 10 t) else None))
          else None)"

definition pow10 :: "int \<Rightarrow> rat" where
  "pow10 e = (if 0 \<le> e then 10 ^ nat e else 1 / 10 ^ nat (- e))"

definition parse_unsigned_decimal :: "string \<Rightarrow> number option" where
  "parse_unsigned_decimal s =
     (if s = ''Infinity'' then Some PInf
      else
        let ip = takeWhile is_digit s;
            r1 = dropWhile is_digit s;
            fp = (case r1 of [] \<Rightarrow> [] | c # t \<Rightarrow> if c = CHR ''.'' then takeWhile is_digit t else []);
            r2 = (case r1 of [] \<Rightarrow> [] | c # t \<Rightarrow> if c = CHR ''.'' then dropWhile is_digit t else r1)
        in if ip = [] \<and> fp = [] then None
           else (case parse_exponent r2 of
                   None \<Rightarrow> None
                 | Some ex \<Rightarrow>
                     Some (round64 (of_int (digits_value 10 (ip @ fp))
                                     * pow10 (ex - int (length fp))))))"

definition negate :: "number \<Rightarrow> number" where
  "negate x = (case x of NaN \<Rightarrow> NaN | PInf \<Rightarrow> NInf | NInf \<Rightarrow> PInf | Fin q \<Rightarrow> Fin (- q))"

definition parse_radix :: "string \<Rightarrow> number option" where
  "parse_radix s =
     (case s of
        z # x # ds \<Rightarrow>
          if z \<noteq> CHR ''0'' then None
          else if x = CHR ''x'' \<or> x = CHR ''X'' then
            (if all_digits 16 ds then Some (round64 (of_int (digits_value 16 ds))) else None)
          else if x = CHR ''o'' \<or> x = CHR ''O'' then
            (if all_digits 8 ds then Some (round64 (of_int (digits_value 8 ds))) else None)
          else if x = CHR ''b'' \<or> x = CHR ''B'' then
            (if all_digits 2 ds then Some (round64 (of_int (digits_value 2 ds))) else None)
          else None
      | _ \<Rightarrow> None)"

definition to_number :: "string \<Rightarrow> number" where
  "to_number text =
     (let t = trim text
      in case t of
           [] \<Rightarrow> Fin 0
         | c # cs \<Rightarrow>
             (case parse_radix t of
                Some n \<Rightarrow> n
              | None \<Rightarrow>
                  if c = CHR ''-'' then
                    (case parse_unsigned_decimal cs of Some n \<Rightarrow> negate n | None \<Rightarrow> NaN)
                  else if c = CHR ''+'' then
                    (case parse_unsigned_decimal cs of Some n \<Rightarrow> n | None \<Rightarrow> NaN)
                  else (case parse_unsigned_decimal t of Some n \<Rightarrow> n | None \<Rightarrow> NaN)))"

text \<open>
  \<open>Number.prototype.toFixed\<close>.  Below \<open>10^21\<close> the value is rounded to the given number
  of fraction digits, a tie going up in magnitude; from \<open>10^21\<close> on the result is the
  Number's ordinary string, in exponent notation with the fewest digits that denote it.
  \<open>shortest_value a i\<close> is the decimal with the fewest significant digits that rounds
  to \<open>a\<close>, the nearest to \<open>a\<close> among those: it tries the multiples of \<open>10 ^ i\<close> next to
  \<open>a\<close>, then those of \<open>10 ^ (i - 1)\<close>, and so on.
\<close>

function dec_digits :: "int \<Rightarrow> string" where
  "dec_digits n = (if n \<le> 0 then [] else dec_digits (n div 10) @ [''0123456789'' ! nat (n mod 10)])"
  by pat_completeness auto
termination
  by (relation "measure nat") auto

declare dec_digits.simps [simp del]

definition decimal :: "int \<Rightarrow> string" where
  "decimal n = (if n \<le> 0 then ''0'' else dec_digits n)"

fun shortest_value :: "rat \<Rightarrow> nat \<Rightarrow> int" where
  "shortest_value a 0 = \<lfloor>a\<rfloor>"
| "shortest_value a (Suc i) =
     (let p = 10 ^ Suc i;
          lo = \<lfloor>a / of_int p\<rfloor>;
          hi = lo + 1;
          ok = (\<lambda>s. round64 (of_int (s * p)) = Fin a);
          nearer = (a - of_int (lo * p) < of_int (hi * p) - a
                    \<or> (a - of_int (lo * p) = of_int (hi * p) - a \<and> even lo))
      in if ok lo \<and> (\<not> ok hi \<or> nearer) then lo * p
         else if ok hi then hi * p
         else shortest_value a i)"

definition number_to_string_large :: "rat \<Rightarrow> string" where
  "number_to_string_large a =
     (let v = decimal (shortest_value a (length (decimal \<lfloor>a\<rfloor>) - 1));
          ds = rev (dropWhile (\<lambda>c. c = CHR ''0'') (rev v))
      in (case ds of
            [] \<Rightarrow> ''0''
          | d # rest \<Rightarrow> if rest = [] then [d] else d # CHR ''.'' # rest)
         @ ''e+'' @ decimal (int (length v) - 1))"

definition toFixed :: "number \<Rightarrow> nat \<Rightarrow> string" where
  "toFixed x f =
     (case x of
        NaN \<Rightarrow> ''NaN''
      | PInf \<Rightarrow> ''Infinity''
      | NInf \<Rightarrow> ''-Infinity''
      | Fin q \<Rightarrow>
          let s = (if q < 0 then ''-'' else []);
              a = \<bar>q\<bar>
          in if 10 ^ 21 \<le> a then s @ number_to_string_large a
             else
               let m = decimal \<lfloor>a * 10 ^ f + 1 / 2\<rfloor>;
                   m' = (if f \<noteq> 0 \<and> length m \<le> f
                         then replicate (f + 1 - length m) CHR ''0'' @ m else m)
               in if f = 0 then s @ m'
                  else s @ take (length m' - f) m' @ ''.'' @ drop (length m' - f) m')"

section \<open>Errors\<close>

text \<open>The exceptions that the source can meet.\<close>

datatype error = TypeError | RangeError | SyntaxError

section \<open>Regular expressions of the host language\<close>

text \<open>
  \<open>Template.render\<close> builds its expression from the key, \<open>new RegExp('{'+key+'}','g')\<close>,
  so the key is read as pattern text.  This section models patterns as the host language
  defines them for expressions without the unicode flag, with the extensions that browsers
  implement (Annex B of the language definition): the syntax, with a SyntaxError for a
  pattern that is not well formed, and the backtracking matcher.  Look-behind and named
  groups, which later editions added, are not part of it.

  A pattern is a disjunction of alternatives; an alternative is a sequence of terms; a
  term is an assertion, or an atom with an optional quantifier.
\<close>

datatype regex =
    Empty
  | Chars "char \<Rightarrow> bool"
  | Seq regex regex
  | Alt regex regex
  | Group nat regex
  | Repeat regex nat "nat option" bool
  | Backref nat
  | Assert_start
  | Assert_end
  | Assert_word bool
  | Lookahead bool regex

primrec groups :: "regex \<Rightarrow> nat list" where
  "groups Empty = []"
| "groups (Chars A) = []"
| "groups (Seq r1 r2) = groups r1 @ groups r2"
| "groups (Alt r1 r2) = groups r1 @ groups r2"
| "groups (Group n r) = n # groups r"
| "groups (Repeat r mn mx greedy) = groups r"
| "groups (Backref n) = []"
| "groups Assert_start = []"
| "groups Assert_end = []"
| "groups (Assert_word b) = []"
| "groups (Lookahead b r) = groups r"

subsection \<open>The matcher\<close>

text \<open>
  A state of the matcher is the character before the current position (none at the start
  of the subject), the rest of the subject from the current position on, and the texts
  captured by the groups so far.  A matcher takes a state and a continuation, which
  decides whether the rest of the pattern matches from the state it is given; failure is
  \<open>None\<close>.  This is the matcher of the language definition, which keeps the end index
  where the rest of the subject stands here.

  \<open>repeat_matcher\<close> is the matcher of a quantified atom with its least and greatest
  number of repetitions (\<open>None\<close> for no bound).  Each repetition starts with the captures
  of the groups inside the atom cleared.  Once the least number is reached, a repetition
  that does not move forward is refused, which is the test of the definition that the end
  index has changed: a matcher never moves back.
\<close>

type_synonym mstate = "char option \<times> string \<times> (nat \<rightharpoonup> string)"

type_synonym continuation = "mstate \<Rightarrow> mstate option"

type_synonym matcher = "mstate \<Rightarrow> continuation \<Rightarrow> mstate option"

definition word_char :: "char \<Rightarrow> bool" where
  "word_char c =
     (c \<in> set ''abcdefghijklmnopqrstuvwxyzABCDEFGHIJKLMNOPQRSTUVWXYZ0123456789_'')"

function repeat_matcher ::
  "matcher \<Rightarrow> nat list \<Rightarrow> nat \<Rightarrow> nat option \<Rightarrow> bool \<Rightarrow> matcher" where
  "repeat_matcher m gs mn mx greedy x c =
     (if mx = Some 0 then c x
      else if mn \<noteq> 0 then
        m (fst x, fst (snd x), snd (snd x) |` (- set gs))
          (\<lambda>y. repeat_matcher m gs (mn - 1) (map_option (\<lambda>k. k - 1) mx) greedy y c)
      else if greedy then
        (case m (fst x, fst (snd x), snd (snd x) |` (- set gs))
                (\<lambda>y. if length (fst (snd y)) < length (fst (snd x))
                     then repeat_matcher m gs 0 (map_option (\<lambda>k. k - 1) mx) greedy y c
                     else None) of
           Some z \<Rightarrow> Some z
         | None \<Rightarrow> c x)
      else
        (case c x of
           Some z \<Rightarrow> Some z
         | None \<Rightarrow>
             m (fst x, fst (snd x), snd (snd x) |` (- set gs))
               (\<lambda>y. if length (fst (snd y)) < length (fst (snd x))
                    then repeat_matcher m gs 0 (map_option (\<lambda>k. k - 1) mx) greedy y c
                    else None)))"
  by pat_completeness auto
termination
  by (relation "measures [\<lambda>(m, gs, mn, mx, greedy, x, c). mn,
                          \<lambda>(m, gs, mn, mx, greedy, x, c). length (fst (snd x))]") auto

declare repeat_matcher.simps [simp del]

primrec matcher :: "regex \<Rightarrow> matcher" where
  "matcher Empty = (\<lambda>x c. c x)"
| "matcher (Chars A) =
     (\<lambda>x c. case fst (snd x) of
               [] \<Rightarrow> None
             | a # as \<Rightarrow> if A a then c (Some a, as, snd (snd x)) else None)"
| "matcher (Seq r1 r2) = (\<lambda>x c. matcher r1 x (\<lambda>y. matcher r2 y c))"
| "matcher (Alt r1 r2) =
     (\<lambda>x c. case matcher r1 x c of Some z \<Rightarrow> Some z | None \<Rightarrow> matcher r2 x c)"
| "matcher (Group n r) =
     (\<lambda>x c. matcher r x
        (\<lambda>y. c (fst y, fst (snd y),
                (snd (snd y))
                  (n \<mapsto> take (length (fst (snd x)) - length (fst (snd y))) (fst (snd x))))))"
| "matcher (Repeat r mn mx greedy) = repeat_matcher (matcher r) (groups r) mn mx greedy"
| "matcher (Backref n) =
     (\<lambda>x c. case snd (snd x) n of
               None \<Rightarrow> c x
             | Some t \<Rightarrow>
                 if prefix t (fst (snd x))
                 then c (if t = [] then fst x else Some (last t),
                         drop (length t) (fst (snd x)), snd (snd x))
                 else None)"
| "matcher Assert_start = (\<lambda>x c. if fst x = None then c x else None)"
| "matcher Assert_end = (\<lambda>x c. if fst (snd x) = [] then c x else None)"
| "matcher (Assert_word b) =
     (\<lambda>x c. let w_prev = (case fst x of None \<Rightarrow> False | Some a \<Rightarrow> word_char a);
                w_next = (case fst (snd x) of [] \<Rightarrow> False | a # as \<Rightarrow> word_char a)
            in if (w_prev \<noteq> w_next) = b then c x else None)"
| "matcher (Lookahead b r) =
     (\<lambda>x c. case matcher r x Some of
               None \<Rightarrow> if b then None else c x
             | Some y \<Rightarrow> if b then c (fst x, fst (snd x), snd (snd y)) else None)"

subsection \<open>Escapes and character classes\<close>

text \<open>
  A character is given by its code; a code above 255 denotes no character of the model.
  After a backslash: \<open>t n v f r\<close> are control characters; \<open>c\<close> with a letter is the
  letter's code modulo 32; \<open>x\<close> with two and \<open>u\<close> with four hexadecimal digits give a
  code; up to three octal digits give a code below 256; any other character stands for
  itself.  A backslash before \<open>c\<close> without a letter stands for itself, and the \<open>c\<close> is
  read again.  The functions return what they read and how many characters after the
  backslash they used.
\<close>

definition code_chars :: "nat \<Rightarrow> char \<Rightarrow> bool" where
  "code_chars n = (\<lambda>c. of_char c = n)"

definition digit_chars :: "char \<Rightarrow> bool" where
  "digit_chars = is_digit"

definition space_chars :: "char \<Rightarrow> bool" where
  "space_chars =
     (\<lambda>c. c \<in> set [CHR 0x09, CHR 0x0A, CHR 0x0B, CHR 0x0C, CHR 0x0D, CHR 0x20, CHR 0xA0])"

definition dot_chars :: "char \<Rightarrow> bool" where
  "dot_chars = (\<lambda>c. c \<noteq> CHR 0x0A \<and> c \<noteq> CHR 0x0D)"

definition class_escape_chars :: "char \<Rightarrow> (char \<Rightarrow> bool) option" where
  "class_escape_chars e =
     (if e = CHR ''d'' then Some digit_chars
      else if e = CHR ''D'' then Some (\<lambda>c. \<not> digit_chars c)
      else if e = CHR ''s'' then Some space_chars
      else if e = CHR ''S'' then Some (\<lambda>c. \<not> space_chars c)
      else if e = CHR ''w'' then Some word_char
      else if e = CHR ''W'' then Some (\<lambda>c. \<not> word_char c)
      else None)"

definition is_octal :: "char \<Rightarrow> bool" where
  "is_octal c = (c \<in> set ''01234567'')"

definition is_hex :: "char \<Rightarrow> bool" where
  "is_hex c = (digit_value c < 16)"

definition is_letter :: "char \<Rightarrow> bool" where
  "is_letter c = (c \<in> set ''abcdefghijklmnopqrstuvwxyzABCDEFGHIJKLMNOPQRSTUVWXYZ'')"

definition octal_escape :: "string \<Rightarrow> nat \<times> nat" where
  "octal_escape s =
     (let ds = takeWhile is_octal (take (if hd s \<in> set ''0123'' then 3 else 2) s)
      in (nat (digits_value 8 ds), length ds))"

definition control_escape :: "char \<Rightarrow> nat option" where
  "control_escape e =
     map_of [(CHR ''t'', 9), (CHR ''n'', 10), (CHR ''v'', 11), (CHR ''f'', 12), (CHR ''r'', 13)] e"

definition char_escape :: "bool \<Rightarrow> string \<Rightarrow> nat \<times> nat" where
  "char_escape in_class s =
     (case s of
        [] \<Rightarrow> (0x5C, 0)
      | e # rest \<Rightarrow>
          (case control_escape e of
             Some n \<Rightarrow> (n, 1)
           | None \<Rightarrow>
               if e = CHR ''c'' then
                 (case rest of
                    [] \<Rightarrow> (0x5C, 0)
                  | l # _ \<Rightarrow>
                      if is_letter l \<or> (in_class \<and> (is_digit l \<or> l = CHR ''_''))
                      then (of_char l mod 32, 2) else (0x5C, 0))
               else if e = CHR ''x'' then
                 (if 2 \<le> length rest \<and> list_all is_hex (take 2 rest)
                  then (nat (digits_value 16 (take 2 rest)), 3) else (of_char e, 1))
               else if e = CHR ''u'' then
                 (if 4 \<le> length rest \<and> list_all is_hex (take 4 rest)
                  then (nat (digits_value 16 (take 4 rest)), 5) else (of_char e, 1))
               else if is_octal e then octal_escape s
               else (of_char e, 1)))"

text \<open>
  A character class is a list of class atoms: a dash, a single character, or a set of
  characters (one of the escapes \<open>d D s S w W\<close>).  An atom, a dash and an atom make a
  range when both atoms are single characters, which is a SyntaxError when out of order;
  otherwise the dash stands for itself.  In a class, backslash \<open>b\<close> is the backspace, and
  \<open>c\<close> also takes a digit or an underscore.  The class ends at the first closing
  bracket that no backslash precedes.
\<close>

datatype class_atom = Dash | One nat | Many "char \<Rightarrow> bool"

definition atom_chars :: "class_atom \<Rightarrow> char \<Rightarrow> bool" where
  "atom_chars a =
     (case a of Dash \<Rightarrow> (\<lambda>c. c = CHR ''-'') | One n \<Rightarrow> code_chars n | Many A \<Rightarrow> A)"

definition atom_code :: "class_atom \<Rightarrow> nat option" where
  "atom_code a = (case a of Dash \<Rightarrow> Some 0x2D | One n \<Rightarrow> Some n | Many A \<Rightarrow> None)"

definition class_escape :: "string \<Rightarrow> class_atom \<times> nat" where
  "class_escape s =
     (case s of
        [] \<Rightarrow> (One 0x5C, 0)
      | e # rest \<Rightarrow>
          if e = CHR ''b'' then (One 8, 1)
          else (case class_escape_chars e of
                  Some A \<Rightarrow> (Many A, 1)
                | None \<Rightarrow> (One (fst (char_escape True s)), snd (char_escape True s))))"

fun class_atoms :: "nat \<Rightarrow> string \<Rightarrow> class_atom list" where
  "class_atoms k [] = []"
| "class_atoms (Suc k) (c # cs) = class_atoms k cs"
| "class_atoms 0 (c # cs) =
     (if c = CHR 0x5C then fst (class_escape cs) # class_atoms (snd (class_escape cs)) cs
      else if c = CHR ''-'' then Dash # class_atoms 0 cs
      else One (of_char c) # class_atoms 0 cs)"

fun class_ranges :: "class_atom list \<Rightarrow> error + (char \<Rightarrow> bool)" where
  "class_ranges [] = Inr (\<lambda>c. False)"
| "class_ranges (a # Dash # b # rest) =
     (case class_ranges rest of
        Inl e \<Rightarrow> Inl e
      | Inr A \<Rightarrow>
          (case atom_code a of
             None \<Rightarrow> Inr (\<lambda>c. atom_chars a c \<or> c = CHR ''-'' \<or> atom_chars b c \<or> A c)
           | Some i \<Rightarrow>
               (case atom_code b of
                  None \<Rightarrow> Inr (\<lambda>c. atom_chars a c \<or> c = CHR ''-'' \<or> atom_chars b c \<or> A c)
                | Some j \<Rightarrow>
                    if j < i then Inl SyntaxError
                    else Inr (\<lambda>c. (i \<le> of_char c \<and> of_char c \<le> j) \<or> A c))))"
| "class_ranges (a # rest) =
     (case class_ranges rest of
        Inl e \<Rightarrow> Inl e
      | Inr A \<Rightarrow> Inr (\<lambda>c. atom_chars a c \<or> A c))"

fun class_end :: "string \<Rightarrow> nat option" where
  "class_end [] = None"
| "class_end [c] = (if c = CHR '']'' then Some 0 else None)"
| "class_end (c # d # ds) =
     (if c = CHR '']'' then Some 0
      else if c = CHR 0x5C then map_option (\<lambda>k. k + 2) (class_end ds)
      else map_option Suc (class_end (d # ds)))"

subsection \<open>The syntax of patterns\<close>

text \<open>
  \<open>braces\<close> reads a repetition count \<open>{n}\<close>, \<open>{n,}\<close> or \<open>{n,m}\<close> after its opening
  brace.  An opening brace that starts no repetition count stands for itself, and so does
  every closing brace and closing bracket.  A quantifier followed by a question mark is
  lazy.  A count whose bounds are out of order is a SyntaxError.
\<close>

definition braces :: "string \<Rightarrow> (nat \<times> nat option \<times> nat) option" where
  "braces s =
     (let a = takeWhile is_digit s; r = dropWhile is_digit s
      in if a = [] then None
         else (case r of
                 [] \<Rightarrow> None
               | c # r1 \<Rightarrow>
                   if c = CHR ''}'' then
                     Some (nat (digits_value 10 a), Some (nat (digits_value 10 a)), length a + 1)
                   else if c = CHR '','' then
                     (let b = takeWhile is_digit r1; r2 = dropWhile is_digit r1
                      in case r2 of
                           [] \<Rightarrow> None
                         | d # _ \<Rightarrow>
                             if d = CHR ''}'' then
                               Some (nat (digits_value 10 a),
                                     if b = [] then None else Some (nat (digits_value 10 b)),
                                     length a + length b + 2)
                             else None)
                   else None))"

datatype paren = Capturing | Noncapturing | Looking bool

datatype token =
    T_atom regex
  | T_assert regex
  | T_quant nat "nat option" bool
  | T_open paren
  | T_close
  | T_bar

definition quantifier :: "nat \<Rightarrow> nat option \<Rightarrow> nat \<Rightarrow> string \<Rightarrow> error + token \<times> nat" where
  "quantifier mn mx len rest =
     (if (case mx of None \<Rightarrow> False | Some k \<Rightarrow> k < mn) then Inl SyntaxError
      else if rest \<noteq> [] \<and> hd rest = CHR ''?'' then Inr (T_quant mn mx False, len + 1)
      else Inr (T_quant mn mx True, len))"

text \<open>
  The escapes outside a class: \<open>b\<close> and \<open>B\<close> are the word boundary assertions; a
  decimal number that does not start with zero is a back reference when the pattern has
  that many groups, and otherwise it is read as an octal escape or stands for itself.  A
  backslash at the end of the pattern is a SyntaxError.
\<close>

definition atom_escape :: "nat \<Rightarrow> string \<Rightarrow> error + token \<times> nat" where
  "atom_escape n s =
     (case s of
        [] \<Rightarrow> Inl SyntaxError
      | e # rest \<Rightarrow>
          if e = CHR ''b'' then Inr (T_assert (Assert_word True), 2)
          else if e = CHR ''B'' then Inr (T_assert (Assert_word False), 2)
          else (case class_escape_chars e of
                  Some A \<Rightarrow> Inr (T_atom (Chars A), 2)
                | None \<Rightarrow>
                    if is_digit e \<and> e \<noteq> CHR ''0''
                       \<and> nat (digits_value 10 (takeWhile is_digit s)) \<le> n
                    then Inr (T_atom (Backref (nat (digits_value 10 (takeWhile is_digit s)))),
                              Suc (length (takeWhile is_digit s)))
                    else Inr (T_atom (Chars (code_chars (fst (char_escape False s)))),
                              Suc (snd (char_escape False s)))))"

definition char_class :: "string \<Rightarrow> error + token \<times> nat" where
  "char_class s =
     (let negated = (s \<noteq> [] \<and> hd s = CHR ''^'');
          body = (if negated then tl s else s)
      in case class_end body of
           None \<Rightarrow> Inl SyntaxError
         | Some k \<Rightarrow>
             (case class_ranges (class_atoms 0 (take k body)) of
                Inl e \<Rightarrow> Inl e
              | Inr A \<Rightarrow>
                  Inr (T_atom (Chars (if negated then (\<lambda>c. \<not> A c) else A)),
                       k + (if negated then 3 else 2))))"

text \<open>
  \<open>lex1 n c cs\<close> reads one token at the character \<open>c\<close>, followed by \<open>cs\<close>, of a pattern
  with \<open>n\<close> groups, and gives the token and the number of characters it spans.
\<close>

definition lex1 :: "nat \<Rightarrow> char \<Rightarrow> string \<Rightarrow> error + token \<times> nat" where
  "lex1 n c cs =
     (if c = CHR 0x5C then atom_escape n cs
      else if c = CHR ''['' then char_class cs
      else if c = CHR ''('' then
        (case cs of
           [] \<Rightarrow> Inr (T_open Capturing, 1)
         | q # rest \<Rightarrow>
             if q \<noteq> CHR ''?'' then Inr (T_open Capturing, 1)
             else (case rest of
                     [] \<Rightarrow> Inl SyntaxError
                   | k # _ \<Rightarrow>
                       if k = CHR '':'' then Inr (T_open Noncapturing, 3)
                       else if k = CHR ''='' then Inr (T_open (Looking True), 3)
                       else if k = CHR ''!'' then Inr (T_open (Looking False), 3)
                       else Inl SyntaxError))
      else if c = CHR '')'' then Inr (T_close, 1)
      else if c = CHR ''|'' then Inr (T_bar, 1)
      else if c = CHR ''*'' then quantifier 0 None 1 cs
      else if c = CHR ''+'' then quantifier 1 None 1 cs
      else if c = CHR ''?'' then quantifier 0 (Some 1) 1 cs
      else if c = CHR ''{'' then
        (case braces cs of
           None \<Rightarrow> Inr (T_atom (Chars ((=) c)), 1)
         | Some (mn, mx, len) \<Rightarrow> quantifier mn mx (Suc len) (drop len cs))
      else if c = CHR ''^'' then Inr (T_assert Assert_start, 1)
      else if c = CHR ''$'' then Inr (T_assert Assert_end, 1)
      else if c = CHR ''.'' then Inr (T_atom (Chars dot_chars), 1)
      else Inr (T_atom (Chars ((=) c)), 1))"

text \<open>
  \<open>tokens n k s\<close> is the list of the tokens of \<open>s\<close> after its first \<open>k\<close> characters,
  which belong to the token before.
\<close>

fun tokens :: "nat \<Rightarrow> nat \<Rightarrow> string \<Rightarrow> error + token list" where
  "tokens n k [] = Inr []"
| "tokens n (Suc k) (c # cs) = tokens n k cs"
| "tokens n 0 (c # cs) =
     (case lex1 n c cs of
        Inl e \<Rightarrow> Inl e
      | Inr (t, len) \<Rightarrow>
          (case tokens n (len - 1) cs of
             Inl e \<Rightarrow> Inl e
           | Inr ts \<Rightarrow> Inr (t # ts)))"

text \<open>
  The number of groups of a pattern: the opening parentheses outside classes that no
  backslash precedes and no question mark follows.
\<close>

fun count_groups :: "bool \<Rightarrow> string \<Rightarrow> nat" where
  "count_groups in_class [] = 0"
| "count_groups in_class [c] = (if \<not> in_class \<and> c = CHR ''('' then 1 else 0)"
| "count_groups in_class (c # d # ds) =
     (if c = CHR 0x5C then count_groups in_class ds
      else if in_class then count_groups (c \<noteq> CHR '']'') (d # ds)
      else if c = CHR ''['' then count_groups True (d # ds)
      else if c = CHR ''('' \<and> d \<noteq> CHR ''?'' then Suc (count_groups False (d # ds))
      else count_groups False (d # ds))"

text \<open>
  The tokens are put together with a stack of open groups.  A frame holds the kind of the
  group, its finished alternatives and the terms of the current alternative, the latest
  first; a term carries whether a quantifier may follow it.  A quantifier applies to the
  term before it, and it is a SyntaxError when there is none or when that term is an
  assertion or already has a quantifier; a lookahead may have one.  Closing a group that
  is not open and ending the pattern inside a group are SyntaxErrors.  Groups are
  numbered from 1 in the order of their opening parentheses.
\<close>

datatype group_kind = Root | Capture nat | Noncapture | Look bool

type_synonym frame = "group_kind \<times> regex list \<times> (regex \<times> bool) list"

definition sequence :: "regex list \<Rightarrow> regex" where
  "sequence rs = foldr Seq rs Empty"

definition close_frame :: "frame \<Rightarrow> regex" where
  "close_frame f =
     foldl (\<lambda>later earlier. Alt earlier later)
       (sequence (rev (map fst (snd (snd f))))) (fst (snd f))"

definition add_term :: "regex \<times> bool \<Rightarrow> frame \<Rightarrow> frame" where
  "add_term t f = (fst f, fst (snd f), t # snd (snd f))"

definition group_term :: "frame \<Rightarrow> regex \<times> bool" where
  "group_term f =
     (case fst f of
        Root \<Rightarrow> (close_frame f, True)
      | Capture n \<Rightarrow> (Group n (close_frame f), True)
      | Noncapture \<Rightarrow> (close_frame f, True)
      | Look b \<Rightarrow> (Lookahead b (close_frame f), True))"

fun parse :: "token list \<Rightarrow> frame \<Rightarrow> frame list \<Rightarrow> nat \<Rightarrow> error + regex" where
  "parse [] f fs g = (if fs = [] then Inr (close_frame f) else Inl SyntaxError)"
| "parse (t # ts) f fs g =
     (case t of
        T_atom r \<Rightarrow> parse ts (add_term (r, True) f) fs g
      | T_assert r \<Rightarrow> parse ts (add_term (r, False) f) fs g
      | T_quant mn mx greedy \<Rightarrow>
          (case snd (snd f) of
             [] \<Rightarrow> Inl SyntaxError
           | last_term # before \<Rightarrow>
               if snd last_term
               then parse ts (fst f, fst (snd f), (Repeat (fst last_term) mn mx greedy, False) # before)
                      fs g
               else Inl SyntaxError)
      | T_bar \<Rightarrow>
          parse ts (fst f, sequence (rev (map fst (snd (snd f)))) # fst (snd f), []) fs g
      | T_open k \<Rightarrow>
          (case k of
             Capturing \<Rightarrow> parse ts (Capture g, [], []) (f # fs) (Suc g)
           | Noncapturing \<Rightarrow> parse ts (Noncapture, [], []) (f # fs) g
           | Looking b \<Rightarrow> parse ts (Look b, [], []) (f # fs) g)
      | T_close \<Rightarrow>
          (case fs of
             [] \<Rightarrow> Inl SyntaxError
           | p # ps \<Rightarrow> parse ts (add_term (group_term f) p) ps g))"

text \<open>\<open>new RegExp(pattern, 'g')\<close>: the pattern's tree and its number of groups.\<close>

definition new_RegExp :: "string \<Rightarrow> error + regex \<times> nat" where
  "new_RegExp pattern =
     (case tokens (count_groups False pattern) 0 pattern of
        Inl e \<Rightarrow> Inl e
      | Inr ts \<Rightarrow>
          (case parse ts (Root, [], []) [] 1 of
             Inl e \<Rightarrow> Inl e
           | Inr r \<Rightarrow> Inr (r, count_groups False pattern)))"

subsection \<open>Replacing with a global expression\<close>

text \<open>
  The replacement text of a match: as \<open>expand\<close>, and a dollar sign with one or two
  digits stands for the text of the group of that number, which is empty when the group
  took no part in the match.  Two digits are read as one number when the pattern has that
  many groups, and as a one-digit number followed by a digit otherwise; a number that is
  zero or above the number of groups leaves the text as it is.
\<close>

fun get_substitution ::
  "(nat \<rightharpoonup> string) \<Rightarrow> nat \<Rightarrow> string \<Rightarrow> string \<Rightarrow> string \<Rightarrow> string \<Rightarrow> string" where
  "get_substitution caps n pre m post [] = []"
| "get_substitution caps n pre m post [c] = [c]"
| "get_substitution caps n pre m post (c # d # ds) =
     (if c = CHR ''$'' then
        (if d = CHR ''$'' then CHR ''$'' # get_substitution caps n pre m post ds
         else if d = CHR ''&'' then m @ get_substitution caps n pre m post ds
         else if d = CHR ''`'' then pre @ get_substitution caps n pre m post ds
         else if d = CHR 0x27 then post @ get_substitution caps n pre m post ds
         else if is_digit d then
           (case ds of
              [] \<Rightarrow>
                if 1 \<le> nat (digit_value d) \<and> nat (digit_value d) \<le> n
                then (case caps (nat (digit_value d)) of None \<Rightarrow> [] | Some t \<Rightarrow> t)
                else [c, d]
            | e # es \<Rightarrow>
                if is_digit e \<and> nat (digit_value d * 10 + digit_value e) \<le> n
                   \<and> 1 \<le> nat (digit_value d * 10 + digit_value e)
                then (case caps (nat (digit_value d * 10 + digit_value e)) of
                        None \<Rightarrow> [] | Some t \<Rightarrow> t)
                     @ get_substitution caps n pre m post es
                else if 1 \<le> nat (digit_value d) \<and> nat (digit_value d) \<le> n
                then (case caps (nat (digit_value d)) of None \<Rightarrow> [] | Some t \<Rightarrow> t)
                     @ get_substitution caps n pre m post ds
                else c # get_substitution caps n pre m post (d # ds))
         else c # get_substitution caps n pre m post (d # ds))
      else c # get_substitution caps n pre m post (d # ds))"

text \<open>
  \<open>replace_scan r n repl pre s\<close> is \<open>replace\<close> with a global expression on the subject
  \<open>pre @ s\<close>, from the position between \<open>pre\<close> and \<open>s\<close> on.  The expression is tried at
  each position from the left.  A match is replaced and the search goes on behind it;
  after an empty match it goes on one character further, and that character is copied.
  Where the expression does not match, the character is copied.
\<close>

function replace_scan :: "regex \<Rightarrow> nat \<Rightarrow> string \<Rightarrow> string \<Rightarrow> string \<Rightarrow> string" where
  "replace_scan r n repl pre s =
     (case matcher r (if pre = [] then None else Some (last pre), s, Map.empty) Some of
        None \<Rightarrow> (case s of [] \<Rightarrow> [] | c # cs \<Rightarrow> c # replace_scan r n repl (pre @ [c]) cs)
      | Some y \<Rightarrow>
          get_substitution (snd (snd y)) n pre
            (take (length s - length (fst (snd y))) s)
            (drop (length s - length (fst (snd y))) s) repl
          @ (if length s - length (fst (snd y)) = 0
             then (case s of [] \<Rightarrow> [] | c # cs \<Rightarrow> c # replace_scan r n repl (pre @ [c]) cs)
             else replace_scan r n repl
                    (pre @ take (length s - length (fst (snd y))) s)
                    (drop (length s - length (fst (snd y))) s)))"
  by pat_completeness auto
termination
  by (relation "measure (\<lambda>(r, n, repl, pre, s). length s)") auto

declare replace_scan.simps [simp del]

definition regexp_replace :: "regex \<times> nat \<Rightarrow> string \<Rightarrow> string \<Rightarrow> string" where
  "regexp_replace re repl s = replace_scan (fst re) (snd re) repl [] s"

text \<open>\<open>s.replace(new RegExp(pattern, 'g'), repl)\<close>.\<close>

definition js_replace :: "string \<Rightarrow> string \<Rightarrow> string \<Rightarrow> error + string" where
  "js_replace pattern repl s =
     (case new_RegExp pattern of Inl e \<Rightarrow> Inl e | Inr re \<Rightarrow> Inr (regexp_replace re repl s))"

section \<open>Objects of the host language\<close>

text \<open>
  An object is the list of its own properties in the order of their creation.
  \<open>own_properties\<close> is the order in which \<open>for (key in obj)\<close> visits them: the keys that
  are array indices first, by ascending value, then the others in creation order.  An
  array is the object whose keys are its indices.
\<close>

type_synonym 'v object = "(string \<times> 'v) list"

definition array_index :: "string \<Rightarrow> bool" where
  "array_index k =
     (k \<noteq> [] \<and> list_all is_digit k \<and> (k = ''0'' \<or> hd k \<noteq> CHR ''0'')
      \<and> digits_value 10 k < 2 ^ 32 - 1)"

definition own_properties :: "'v object \<Rightarrow> (string \<times> 'v) list" where
  "own_properties obj =
     sort_key (\<lambda>kv. digits_value 10 (fst kv)) (filter (\<lambda>kv. array_index (fst kv)) obj)
     @ filter (\<lambda>kv. \<not> array_index (fst kv)) obj"

text \<open>
  \<open>obj.hasOwnProperty(key)\<close> looks the method up on the object itself.  An object that
  owns a property of the name \<open>hasOwnProperty\<close> answers with the value of that property,
  which is a string or a Number in the objects of the source, and calling it throws a
  TypeError.  Otherwise the inherited method tells whether the object owns the key.
\<close>

definition hasOwnProperty :: "'v object \<Rightarrow> string \<Rightarrow> error + bool" where
  "hasOwnProperty obj key =
     (if map_of obj ''hasOwnProperty'' \<noteq> None then Inl TypeError
      else Inr (map_of obj key \<noteq> None))"

text \<open>
  The totals object holds what the source stores in it: a Number, or the string that
  \<open>+=\<close> makes of a value that is not a Number, whose content the model does not follow
  (\<open>Text\<close>).  A fresh object \<open>{}\<close> inherits the properties of \<open>Object.prototype\<close>.
  Reading a key that the object does not own gives the inherited value when the key names
  one of them, and \<open>undefined\<close> otherwise.  Assigning to a key creates or updates an own
  property, except for \<open>__proto__\<close>, whose inherited setter ignores a value that is not
  an object.
\<close>

datatype total = Num number | Text

datatype jsval = Undefined | Own total | Builtin

definition Object_prototype_names :: "string list" where
  "Object_prototype_names =
     [''constructor'', ''hasOwnProperty'', ''isPrototypeOf'', ''propertyIsEnumerable'',
      ''toLocaleString'', ''toString'', ''valueOf'', ''__proto__'',
      ''__defineGetter__'', ''__defineSetter__'', ''__lookupGetter__'', ''__lookupSetter__'']"

definition get_property :: "total object \<Rightarrow> string \<Rightarrow> jsval" where
  "get_property obj k =
     (case map_of obj k of
        Some v \<Rightarrow> Own v
      | None \<Rightarrow> if k \<in> set Object_prototype_names then Builtin else Undefined)"

definition set_property :: "string \<Rightarrow> 'v \<Rightarrow> 'v object \<Rightarrow> 'v object" where
  "set_property k v obj =
     (if map_of obj k \<noteq> None then map (\<lambda>kv. if fst kv = k then (k, v) else kv) obj
      else if k = ''__proto__'' then obj
      else obj @ [(k, v)])"

text \<open>
  \<open>x += hours\<close> with a Number on the right: Numbers are added; \<open>undefined\<close> gives
  \<open>NaN\<close>; an inherited function or object, or a string, is concatenated with the
  Number's text and gives a string.
\<close>

fun js_add :: "jsval \<Rightarrow> number \<Rightarrow> total" where
  "js_add (Own (Num a)) h = Num (num_add a h)"
| "js_add (Own Text) h = Text"
| "js_add Undefined h = Num NaN"
| "js_add Builtin h = Text"

section \<open>Template\<close>

text \<open>
  \<open>Template._escape\<close>: six replacements in the order of the source, the ampersand first.
  Each of the six expressions of the source spells one literal character, so that the
  replacement with it is the replacement of that character (lemma \<open>escape_expressions\<close>).
\<close>

definition Template_escape :: "string \<Rightarrow> string" where
  "Template_escape html =
     replace_all ''/'' ''&#x2F;''
       (replace_all ''>'' ''&gt;''
         (replace_all ''<'' ''&lt;''
           (replace_all [CHR 0x27] ''&#39;''
             (replace_all [CHR 0x22] ''&quot;''
               (replace_all ''&'' ''&amp;'' html)))))"

definition placeholder :: "string \<Rightarrow> string" where
  "placeholder key = CHR ''{'' # key @ ''}''"

text \<open>
  \<open>Template.render\<close>.  The values of the data object are strings.  The loop visits the
  properties of the data in the order of \<open>for (key in data)\<close>; for each it calls
  \<open>data.hasOwnProperty(key)\<close>, escapes the value unless \<open>raw\<close>, builds the expression
  from the key between braces, and replaces in the template.
\<close>

fun render_keys ::
  "string \<Rightarrow> string object \<Rightarrow> (string \<times> string) list \<Rightarrow> bool \<Rightarrow> error + string" where
  "render_keys template data [] raw = Inr template"
| "render_keys template data ((key, v) # rest) raw =
     (case hasOwnProperty data key of
        Inl e \<Rightarrow> Inl e
      | Inr own \<Rightarrow>
          if own then
            (case js_replace (placeholder key) (if raw then v else Template_escape v) template of
               Inl e \<Rightarrow> Inl e
             | Inr template' \<Rightarrow> render_keys template' data rest raw)
          else render_keys template data rest raw)"

definition Template_render :: "string \<Rightarrow> string object \<Rightarrow> bool \<Rightarrow> error + string" where
  "Template_render template data raw = render_keys template data (own_properties data) raw"

text \<open>
  \<open>Template.renderObject\<close>: one rendering per property, with the two variables \<open>key\<close>
  and \<open>value\<close>, concatenated.
\<close>

fun renderObject_keys ::
  "string \<Rightarrow> string object \<Rightarrow> (string \<times> string) list \<Rightarrow> bool \<Rightarrow> error + string" where
  "renderObject_keys template data [] raw = Inr []"
| "renderObject_keys template data ((key, v) # rest) raw =
     (case hasOwnProperty data key of
        Inl e \<Rightarrow> Inl e
      | Inr own \<Rightarrow>
          if own then
            (case Template_render template [(''key'', key), (''value'', v)] raw of
               Inl e \<Rightarrow> Inl e
             | Inr item \<Rightarrow>
                 (case renderObject_keys template data rest raw of
                    Inl e \<Rightarrow> Inl e
                  | Inr items \<Rightarrow> Inr (item @ items)))
          else renderObject_keys template data rest raw)"

definition Template_renderObject :: "string \<Rightarrow> string object \<Rightarrow> bool \<Rightarrow> error + string" where
  "Template_renderObject template data raw =
     renderObject_keys template data (own_properties data) raw"

section \<open>The document\<close>

text \<open>
  The page is seen through the capabilities the source uses.  \<open>trs\<close> holds every table
  row of the page in document order; a row handle is its position there, and rows are
  neither added nor removed by the source.  A row has a class list and its \<open>td\<close>
  children; a cell has its \<open>class\<close> attribute (empty when absent), its text content and
  the text nodes of its \<open>span\<close> children.  \<open>page\<close> is the sequence of sibling elements
  among which the element with the id \<open>TSEntryInline\<close> is looked up and before which
  the summary is inserted.
\<close>

record cell =
  cell_class :: string
  textContent :: string
  span_texts :: "string list"

record tr =
  classList :: "string list"
  cells :: "cell list"

record element =
  tag :: string
  elem_id :: string
  innerHTML :: string

record document =
  trs :: "tr list"
  page :: "element list"

section \<open>QueryResult\<close>

text \<open>
  The wrapped \<open>XPathResult\<close> of snapshot type is the list of the matched row handles:
  \<open>snapshotLength\<close> is its length and \<open>snapshotItem(i)\<close> its \<open>i\<close>-th element.
\<close>

record QueryResult =
  result :: "nat list"
  length_qr :: nat

definition new_QueryResult :: "nat list \<Rightarrow> QueryResult" where
  "new_QueryResult res = \<lparr>result = res, length_qr = length res\<rparr>"

text \<open>
  \<open>forEach\<close>: the loop over \<open>i = 0 .. snapshotLength - 1\<close>.  The callback acts on a state
  and may throw, which ends the loop; the method returns \<open>this\<close>.
\<close>

function forEach_loop ::
  "(nat \<Rightarrow> 's \<Rightarrow> error + 's) \<Rightarrow> nat list \<Rightarrow> nat \<Rightarrow> nat \<Rightarrow> 's \<Rightarrow> error + 's" where
  "forEach_loop callback snapshot i l s =
     (if i < l then
        (case callback (snapshot ! i) s of
           Inl e \<Rightarrow> Inl e
         | Inr s' \<Rightarrow> forEach_loop callback snapshot (i + 1) l s')
      else Inr s)"
  by pat_completeness auto
termination
  by (relation "measure (\<lambda>(callback, snapshot, i, l, s). l - i)") auto

declare forEach_loop.simps [simp del]

definition QueryResult_forEach ::
  "(nat \<Rightarrow> 's \<Rightarrow> error + 's) \<Rightarrow> QueryResult \<Rightarrow> 's \<Rightarrow> error + QueryResult \<times> 's" where
  "QueryResult_forEach callback this s =
     (case forEach_loop callback (result this) 0 (length (result this)) s of
        Inl e \<Rightarrow> Inl e
      | Inr s' \<Rightarrow> Inr (this, s'))"

text \<open>\<open>map\<close> delegates to \<open>forEach\<close> and pushes each callback result on a new array.\<close>

definition QueryResult_map ::
  "(nat \<Rightarrow> 's \<Rightarrow> error + 'b \<times> 's) \<Rightarrow> QueryResult \<Rightarrow> 's \<Rightarrow> error + 'b list \<times> 's" where
  "QueryResult_map callback this s =
     (case QueryResult_forEach
             (\<lambda>item (acc, s1).
                case callback item s1 of
                  Inl e \<Rightarrow> Inl e
                | Inr (y, s2) \<Rightarrow> Inr (acc @ [y], s2))
             this ([], s) of
        Inl e \<Rightarrow> Inl e
      | Inr (_, acc_s) \<Rightarrow> Inr acc_s)"

definition QueryResult_all :: "QueryResult \<Rightarrow> 's \<Rightarrow> error + nat list \<times> 's" where
  "QueryResult_all this s = QueryResult_map (\<lambda>item s1. Inr (item, s1)) this s"

section \<open>Xpath\<close>

text \<open>
  The three paths of the source.  \<open>td[contains(@class, "c")]\<close> relative to a row selects
  the row's \<open>td\<close> children whose class attribute contains \<open>c\<close>; \<open>Xpath.find\<close> returns
  the first of them or null.  \<open>//tr[td[contains(@class, "project")]/span[text()="ADMIN"]]\<close>
  selects the rows with a \<open>td\<close> child whose class attribute contains \<open>project\<close> and
  which has a \<open>span\<close> child with a text node \<open>ADMIN\<close>; \<open>Xpath.findAll\<close> wraps the
  snapshot of them in a QueryResult.
\<close>

definition HOUR_CELL :: string where
  "HOUR_CELL = ''hours''"

definition NOTE_CELL :: string where
  "NOTE_CELL = ''notes''"

definition Xpath_find :: "string \<Rightarrow> tr \<Rightarrow> cell option" where
  "Xpath_find cls row = List.find (\<lambda>c. sublist cls (cell_class c)) (cells row)"

definition ADMIN_ROWS :: "tr \<Rightarrow> bool" where
  "ADMIN_ROWS row =
     list_ex (\<lambda>c. sublist ''project'' (cell_class c) \<and> ''ADMIN'' \<in> set (span_texts c))
       (cells row)"

definition Xpath_findAll :: "(tr \<Rightarrow> bool) \<Rightarrow> document \<Rightarrow> QueryResult" where
  "Xpath_findAll path doc =
     new_QueryResult (filter (\<lambda>i. path (trs doc ! i)) [0..<length (trs doc)])"

section \<open>Highlight\<close>

definition HIGHLIGHT_CLASS :: string where
  "HIGHLIGHT_CLASS = ''admin_helper_highlight''"

definition classList_add :: "string \<Rightarrow> string list \<Rightarrow> string list" where
  "classList_add c cl = (if c \<in> set cl then cl else cl @ [c])"

definition Highlight_row :: "nat \<Rightarrow> document \<Rightarrow> error + document" where
  "Highlight_row row doc =
     Inr (doc\<lparr>trs := (trs doc)
                 [row := (trs doc ! row)
                    \<lparr>classList := classList_add HIGHLIGHT_CLASS (classList (trs doc ! row))\<rparr>]\<rparr>)"

definition Highlight_run :: "QueryResult \<Rightarrow> document \<Rightarrow> error + document" where
  "Highlight_run rows doc =
     (case QueryResult_forEach Highlight_row rows doc of
        Inl e \<Rightarrow> Inl e
      | Inr (_, doc') \<Rightarrow> Inr doc')"

section \<open>Summarize\<close>

definition TARGET_OUTPUT :: string where
  "TARGET_OUTPUT = ''TSEntryInline''"

definition OUTPUT_ID :: string where
  "OUTPUT_ID = ''admin_helper''"

text \<open>
  The match of the note text against \<open>/(.+?): .+/\<close>, giving the first group.  A dot
  matches any character but a line terminator.  The group is lazy: from a start position
  it takes one character and grows by one at a time until a colon and a space follow it
  with at least one more character of the line after them; when no length works the
  search moves to the next start position.
\<close>

definition line_terminator :: "char \<Rightarrow> bool" where
  "line_terminator c = (c = CHR 0x0A \<or> c = CHR 0x0D)"

fun label_from :: "string \<Rightarrow> string \<Rightarrow> string option" where
  "label_from taken [] = None"
| "label_from taken (c # cs) =
     (if prefix '': '' (c # cs)
         \<and> (case drop 2 (c # cs) of [] \<Rightarrow> False | d # _ \<Rightarrow> \<not> line_terminator d)
      then Some taken
      else if line_terminator c then None
      else label_from (taken @ [c]) cs)"

fun match_label :: "string \<Rightarrow> string option" where
  "match_label [] = None"
| "match_label (c # cs) =
     (case (if line_terminator c then None else label_from [c] cs) of
        Some label \<Rightarrow> Some label
      | None \<Rightarrow> match_label cs)"

text \<open>
  The callback of \<open>Summarize.run\<close> for one row.  Reading \<open>textContent\<close> of a null node
  throws a TypeError.
\<close>

definition Summarize_row :: "document \<Rightarrow> nat \<Rightarrow> total object \<Rightarrow> error + total object" where
  "Summarize_row doc row totals =
     (case Xpath_find NOTE_CELL (trs doc ! row) of
        None \<Rightarrow> Inl TypeError
      | Some noteNode \<Rightarrow>
          (case match_label (textContent noteNode) of
             None \<Rightarrow> Inr totals
           | Some label \<Rightarrow>
               (case Xpath_find HOUR_CELL (trs doc ! row) of
                  None \<Rightarrow> Inl TypeError
                | Some hourNode \<Rightarrow>
                    let hours = to_number (textContent hourNode);
                        totals1 = (if get_property totals label = Undefined
                                   then set_property label (Num (Fin 0)) totals
                                   else totals)
                    in Inr (set_property label (js_add (get_property totals1 label) hours)
                              totals1))))"

text \<open>
  \<open>Summarize._formatTotals\<close>: the loop calls \<open>totals.hasOwnProperty(key)\<close> for each
  property; \<open>toFixed\<close> exists on Numbers only, and throws a RangeError for more than 100
  digits.
\<close>

fun format_entries ::
  "nat \<Rightarrow> total object \<Rightarrow> (string \<times> total) list \<Rightarrow> string object
     \<Rightarrow> error + string object" where
  "format_entries decimals totals [] formattedTotals = Inr formattedTotals"
| "format_entries decimals totals ((key, v) # rest) formattedTotals =
     (case hasOwnProperty totals key of
        Inl e \<Rightarrow> Inl e
      | Inr own \<Rightarrow>
          if own then
            (case v of
               Num n \<Rightarrow>
                 if 100 < decimals then Inl RangeError
                 else format_entries decimals totals rest
                        (set_property key (toFixed n decimals) formattedTotals)
             | Text \<Rightarrow> Inl TypeError)
          else format_entries decimals totals rest formattedTotals)"

definition Summarize_formatTotals ::
  "total object \<Rightarrow> nat option \<Rightarrow> error + string object" where
  "Summarize_formatTotals totals decimals =
     format_entries (case decimals of None \<Rightarrow> 2 | Some d \<Rightarrow> d) totals
       (own_properties totals) []"

definition Summarize_shouldRender :: "'v object \<Rightarrow> bool" where
  "Summarize_shouldRender totals = (own_properties totals \<noteq> [])"

text \<open>
  \<open>document.getElementById\<close> gives the first element with the id, as its position in
  \<open>page\<close>; \<open>insertBefore\<close> puts the new element at that position.
\<close>

fun index_of_id :: "string \<Rightarrow> element list \<Rightarrow> nat option" where
  "index_of_id i [] = None"
| "index_of_id i (e # es) =
     (if elem_id e = i then Some 0 else map_option Suc (index_of_id i es))"

definition getElementById :: "string \<Rightarrow> document \<Rightarrow> nat option" where
  "getElementById i doc = index_of_id i (page doc)"

definition insertBefore :: "element \<Rightarrow> nat \<Rightarrow> document \<Rightarrow> document" where
  "insertBefore new pos doc = doc\<lparr>page := take pos (page doc) @ new # drop pos (page doc)\<rparr>"

definition item_template :: string where
  "item_template = ''<li>{key}: <span class=\"admin_helper_hours\">{value}</span>''"

text \<open>The markup that \<open>_render\<close> assigns to \<open>innerHTML\<close>.\<close>

definition summary_markup :: "string object \<Rightarrow> error + string" where
  "summary_markup formattedTotals =
     (case Template_renderObject item_template formattedTotals False of
        Inl e \<Rightarrow> Inl e
      | Inr items \<Rightarrow> Template_render ''<ul>{items}</ul>'' [(''items'', items)] True)"

definition Summarize_render :: "total object \<Rightarrow> document \<Rightarrow> error + document" where
  "Summarize_render totals doc =
     (case getElementById TARGET_OUTPUT doc of
        None \<Rightarrow> Inr doc
      | Some entries \<Rightarrow>
          if Summarize_shouldRender totals then
            (case Summarize_formatTotals totals None of
               Inl e \<Rightarrow> Inl e
             | Inr formattedTotals \<Rightarrow>
                 (case summary_markup formattedTotals of
                    Inl e \<Rightarrow> Inl e
                  | Inr markup \<Rightarrow>
                      Inr (insertBefore
                             \<lparr>tag = ''div'', elem_id = OUTPUT_ID, innerHTML = markup\<rparr>
                             entries doc)))
          else Inr doc)"

definition Summarize_totals :: "QueryResult \<Rightarrow> document \<Rightarrow> error + total object" where
  "Summarize_totals rows doc =
     (case QueryResult_forEach (Summarize_row doc) rows [] of
        Inl e \<Rightarrow> Inl e
      | Inr (_, totals) \<Rightarrow> Inr totals)"

definition Summarize_run :: "QueryResult \<Rightarrow> document \<Rightarrow> error + document" where
  "Summarize_run rows doc =
     (case Summarize_totals rows doc of
        Inl e \<Rightarrow> Inl e
      | Inr totals \<Rightarrow> Summarize_render totals doc)"

section \<open>AdminHelper\<close>

text \<open>
  A hook is an object; \<open>run\<close> is its \<open>run\<close> property when that is a function, and
  \<open>None\<close> otherwise.  \<open>_iterateRows\<close> evaluates the row query once and hands the result
  to the hooks in order; a hook that throws ends the iteration.
\<close>

record hook =
  run :: "(QueryResult \<Rightarrow> document \<Rightarrow> error + document) option"

fun hooks_forEach :: "hook list \<Rightarrow> QueryResult \<Rightarrow> document \<Rightarrow> error + document" where
  "hooks_forEach [] rows doc = Inr doc"
| "hooks_forEach (h # hs) rows doc =
     (case run h of
        None \<Rightarrow> hooks_forEach hs rows doc
      | Some f \<Rightarrow>
          (case f rows doc of
             Inl e \<Rightarrow> Inl e
           | Inr doc' \<Rightarrow> hooks_forEach hs rows doc'))"

definition AdminHelper_iterateRows :: "hook list \<Rightarrow> document \<Rightarrow> error + document" where
  "AdminHelper_iterateRows hooks doc = hooks_forEach hooks (Xpath_findAll ADMIN_ROWS doc) doc"

definition AdminHelper_init :: "hook list \<Rightarrow> document \<Rightarrow> error + document" where
  "AdminHelper_init hooks doc = AdminHelper_iterateRows hooks doc"

definition Highlight :: hook where
  "Highlight = \<lparr>run = Some Highlight_run\<rparr>"

definition Summarize :: hook where
  "Summarize = \<lparr>run = Some Summarize_run\<rparr>"

section \<open>Keys that stand for themselves\<close>

text \<open>
  The expression built from a key is the literal text \<open>{key}\<close> when the key holds no
  character that the pattern syntax reads specially and when the braces do not spell a
  repetition count (\<open>{2}\<close>, \<open>{2,}\<close>, \<open>{2,5}\<close>).  For such a key a pass of \<open>render\<close>
  is the replacement of a literal text (lemma \<open>js_replace_placeholder\<close>).
  \<open>render_literal\<close>, \<open>renderObject_literal\<close> and \<open>markup_literal\<close> are \<open>render\<close>,
  \<open>renderObject\<close> and the markup of the summary with every pass taken that way, on the
  properties in the order of the loop; they are what the source computes when every key
  is such a key and no key is \<open>hasOwnProperty\<close> (lemmas \<open>Template_render_literal\<close>,
  \<open>Template_renderObject_literal\<close> and \<open>summary_markup_literal\<close>).
\<close>

definition repetition_count :: "string \<Rightarrow> bool" where
  "repetition_count k =
     (let a = takeWhile is_digit k; r = dropWhile is_digit k
      in a \<noteq> [] \<and> (r = [] \<or> (hd r = CHR '','' \<and> list_all is_digit (tl r))))"

definition literal_key :: "string \<Rightarrow> bool" where
  "literal_key k =
     (list_all (\<lambda>c. c \<notin> set (CHR 0x5C # ''^$.*+?()[]{}|'')) k \<and> \<not> repetition_count k)"

fun render_literal :: "string \<Rightarrow> (string \<times> string) list \<Rightarrow> bool \<Rightarrow> string" where
  "render_literal template [] raw = template"
| "render_literal template ((key, v) # data) raw =
     render_literal
       (replace_all (placeholder key) (if raw then v else Template_escape v) template)
       data raw"

fun renderObject_literal :: "string \<Rightarrow> (string \<times> string) list \<Rightarrow> bool \<Rightarrow> string" where
  "renderObject_literal template [] raw = []"
| "renderObject_literal template ((key, v) # data) raw =
     render_literal template [(''key'', key), (''value'', v)] raw
     @ renderObject_literal template data raw"

definition markup_literal :: "string object \<Rightarrow> string" where
  "markup_literal formattedTotals =
     render_literal ''<ul>{items}</ul>''
       [(''items'', renderObject_literal item_template (own_properties formattedTotals) False)]
       True"

section \<open>The origin of characters\<close>

text \<open>
  To follow where the characters of a rendered text come from, the rendering is run on
  characters that carry their origin: the template or a value of the data.  The three
  functions below are \<open>expand\<close>, \<open>replace_from\<close> and \<open>render_literal\<close> again, comparing
  characters without regard to the origin and carrying the origin along; forgetting the
  origins gives back the original functions (lemma \<open>render_traced_erase\<close>).
\<close>

datatype origin = From_template | From_value

type_synonym traced = "(char \<times> origin) list"

fun expand_traced :: "traced \<Rightarrow> traced \<Rightarrow> traced \<Rightarrow> traced \<Rightarrow> traced" where
  "expand_traced pre m post [] = []"
| "expand_traced pre m post [c] = [c]"
| "expand_traced pre m post (c # d # ds) =
     (if fst c = CHR ''$'' then
        (if fst d = CHR ''$'' then c # expand_traced pre m post ds
         else if fst d = CHR ''&'' then m @ expand_traced pre m post ds
         else if fst d = CHR ''`'' then pre @ expand_traced pre m post ds
         else if fst d = CHR 0x27 then post @ expand_traced pre m post ds
         else c # expand_traced pre m post (d # ds))
      else c # expand_traced pre m post (d # ds))"

function replace_from_traced :: "string \<Rightarrow> traced \<Rightarrow> traced \<Rightarrow> traced \<Rightarrow> traced" where
  "replace_from_traced pat repl pre [] = []"
| "replace_from_traced pat repl pre (c # cs) =
     (if pat \<noteq> [] \<and> prefix pat (map fst (c # cs))
      then expand_traced pre (take (length pat) (c # cs)) (drop (length pat) (c # cs)) repl
           @ replace_from_traced pat repl (pre @ take (length pat) (c # cs))
               (drop (length pat) (c # cs))
      else c # replace_from_traced pat repl (pre @ [c]) cs)"
  by pat_completeness auto
termination
  by (relation "measure (\<lambda>(pat, repl, pre, s). length s)") (auto simp: prefix_def)

definition mark :: "origin \<Rightarrow> string \<Rightarrow> traced" where
  "mark org s = map (\<lambda>c. (c, org)) s"

fun render_traced :: "traced \<Rightarrow> (string \<times> string) list \<Rightarrow> bool \<Rightarrow> traced" where
  "render_traced template [] raw = template"
| "render_traced template ((key, v) # data) raw =
     render_traced
       (replace_from_traced (placeholder key)
          (mark From_value (if raw then v else Template_escape v)) [] template)
       data raw"

text \<open>
  A follow rule gives, for a character with its origin, either no constraint or the
  texts one of which must come next; an empty list of texts forbids the character.
  \<open>obeys\<close> is the property that every character of a text meets the rule.
\<close>

type_synonym follow_rule = "char \<times> origin \<Rightarrow> string list option"

fun obeys :: "follow_rule \<Rightarrow> traced \<Rightarrow> bool" where
  "obeys fr [] = True"
| "obeys fr (c # cs) =
     ((case fr c of None \<Rightarrow> True | Some es \<Rightarrow> list_ex (\<lambda>e. prefix e (map fst cs)) es)
      \<and> obeys fr cs)"

definition plain_follow :: "follow_rule \<Rightarrow> bool" where
  "plain_follow fr =
     (\<forall>c. case fr c of
            None \<Rightarrow> True
          | Some es \<Rightarrow>
              fst c \<notin> {CHR ''{'', CHR ''}'', CHR ''$''}
              \<and> (\<forall>e\<in>set es. CHR ''{'' \<notin> set e \<and> CHR ''}'' \<notin> set e \<and> CHR ''$'' \<notin> set e))"

text \<open>
  The rule of escaped values: a character from a value is none of \<open><\<close>, \<open>>\<close>, the two
  quotes and \<open>/\<close>, and an ampersand from a value starts one of the six character
  references.  \<open>escaped_values\<close> states the same directly.  The rule of closing tags: a
  slash is followed by \<open>s\<close> or \<open>u\<close>.
\<close>

definition entity_tails :: "string list" where
  "entity_tails = [''amp;'', ''quot;'', ''#39;'', ''lt;'', ''gt;'', ''#x2F;'']"

definition escape_rule :: follow_rule where
  "escape_rule c =
     (if snd c = From_value then
        (if fst c = CHR ''&'' then Some entity_tails
         else if fst c \<in> set [CHR ''<'', CHR ''>'', CHR 0x22, CHR 0x27, CHR ''/''] then Some []
         else None)
      else None)"

definition closing_rule :: follow_rule where
  "closing_rule c = (if fst c = CHR ''/'' then Some [''s'', ''u''] else None)"

fun escaped_values :: "traced \<Rightarrow> bool" where
  "escaped_values [] = True"
| "escaped_values (c # cs) =
     ((snd c = From_value \<longrightarrow>
         fst c \<notin> set [CHR ''<'', CHR ''>'', CHR 0x22, CHR 0x27, CHR ''/'']
         \<and> (fst c = CHR ''&'' \<longrightarrow> list_ex (\<lambda>e. prefix e (map fst cs)) entity_tails))
      \<and> escaped_values cs)"

section \<open>Notions used to state the properties\<close>

text \<open>The callback applied to the items of a snapshot in order, until one throws.\<close>

fun run_items :: "(nat \<Rightarrow> 's \<Rightarrow> error + 's) \<Rightarrow> nat list \<Rightarrow> 's \<Rightarrow> error + 's" where
  "run_items callback [] s = Inr s"
| "run_items callback (x # xs) s =
     (case callback x s of Inl e \<Rightarrow> Inl e | Inr s' \<Rightarrow> run_items callback xs s')"

text \<open>A total that is a Number.\<close>

definition numeric_total :: "total \<Rightarrow> bool" where
  "numeric_total v = (case v of Num n \<Rightarrow> True | _ \<Rightarrow> False)"

text \<open>
  Totals in which every own property that is not named like an inherited property is a
  Number; the totals that \<open>Summarize.run\<close> builds are of this kind.
\<close>

definition own_totals_numeric :: "total object \<Rightarrow> bool" where
  "own_totals_numeric totals =
     list_all (\<lambda>kv. fst kv \<in> set Object_prototype_names \<or> numeric_total (snd kv)) totals"

text \<open>
  The text that the page shows for simple markup: the tags are removed.  Character
  references are not decoded; the markup this is applied to has none.
\<close>

fun text_of_markup :: "bool \<Rightarrow> string \<Rightarrow> string" where
  "text_of_markup in_tag [] = []"
| "text_of_markup in_tag (c # cs) =
     (if in_tag then text_of_markup (c \<noteq> CHR ''>'') cs
      else if c = CHR ''<'' then text_of_markup True cs
      else c # text_of_markup False cs)"

text \<open>The number of positions of a text at which a given text starts.\<close>

fun count_occurrences :: "string \<Rightarrow> string \<Rightarrow> nat" where
  "count_occurrences pat [] = (if pat = [] then 1 else 0)"
| "count_occurrences pat (c # cs) =
     (if prefix pat (c # cs) then 1 else 0) + count_occurrences pat cs"

text \<open>A key without braces.\<close>

definition brace_free :: "string \<Rightarrow> bool" where
  "brace_free k = (CHR ''{'' \<notin> set k \<and> CHR ''}'' \<notin> set k)"

text \<open>
  \<open>join sep ps\<close> is the text made of the pieces \<open>ps\<close> with \<open>sep\<close> between neighbours;
  \<open>weave ps es\<close> is the text made of the pieces with the fillers \<open>es\<close> between
  neighbours, one filler per gap.
\<close>

fun join :: "string \<Rightarrow> string list \<Rightarrow> string" where
  "join sep [] = []"
| "join sep [p] = p"
| "join sep (p # q # ps) = p @ sep @ join sep (q # ps)"

fun weave :: "string list \<Rightarrow> string list \<Rightarrow> string" where
  "weave [] es = []"
| "weave [p] es = p"
| "weave (p # q # ps) [] = p @ weave (q # ps) []"
| "weave (p # q # ps) (e # es) = p @ e @ weave (q # ps) es"

text \<open>The escaping of one character: each of the six characters independently.\<close>

definition escape_char :: "char \<Rightarrow> string" where
  "escape_char c =
     (if c = CHR ''&'' then ''&amp;''
      else if c = CHR 0x22 then ''&quot;''
      else if c = CHR 0x27 then ''&#39;''
      else if c = CHR ''<'' then ''&lt;''
      else if c = CHR ''>'' then ''&gt;''
      else if c = CHR ''/'' then ''&#x2F;''
      else [c])"

section \<open>Theorems\<close>

subsection \<open>Keys that stand for themselves\<close>

text \<open>
  For a literal key the expression built by \<open>render\<close> is a sequence of single
  characters, its matcher is the test for a prefix, and the replacement with it is the
  replacement of the literal text.
\<close>

lemma get_substitution_no_groups:
  "get_substitution caps 0 pre m post repl = expand pre m post repl"
  by (induction pre m post repl rule: expand.induct) (auto split: list.splits)

lemma matcher_literal:
  "matcher (sequence (map (\<lambda>c. Chars ((=) c)) pat)) (p, s, caps) k =
     (if prefix pat s
      then k (if pat = [] then p else Some (last pat), drop (length pat) s, caps)
      else None)"
proof (induction pat arbitrary: p s)
  case Nil
  then show ?case by (simp add: sequence_def)
next
  case (Cons a pat)
  have IH: "\<And>p s. matcher (foldr Seq (map (\<lambda>c. Chars ((=) c)) pat) Empty) (p, s, caps) k =
     (if prefix pat s
      then k (if pat = [] then p else Some (last pat), drop (length pat) s, caps)
      else None)"
    using Cons.IH by (simp add: sequence_def)
  show ?case
  proof (cases s)
    case Nil
    then show ?thesis by (simp add: sequence_def)
  next
    case (Cons b t)
    then show ?thesis by (auto simp: sequence_def IH)
  qed
qed

lemma count_groups_plain:
  "\<forall>c\<in>set s. c \<noteq> CHR 0x5C \<and> c \<noteq> CHR ''['' \<and> c \<noteq> CHR ''('' \<Longrightarrow> count_groups False s = 0"
proof (induction s rule: length_induct)
  case (1 s)
  show ?case
  proof (cases s)
    case Nil
    then show ?thesis by simp
  next
    case (Cons c t)
    show ?thesis
    proof (cases t)
      case Nil
      with Cons 1 show ?thesis by simp
    next
      case (Cons d ds)
      with \<open>s = c # t\<close> 1 show ?thesis by simp
    qed
  qed
qed

lemma takeWhile_digits_brace:
  "takeWhile is_digit (xs @ ''}'') = takeWhile is_digit xs"
  by (induction xs) (simp_all add: is_digit_def)

lemma dropWhile_digits_brace:
  "dropWhile is_digit (xs @ ''}'') = dropWhile is_digit xs @ ''}''"
  by (induction xs) (simp_all add: is_digit_def)

lemma braces_literal:
  assumes "literal_key key"
  shows "braces (key @ ''}'') = None"
proof -
  let ?a = "takeWhile is_digit key" and ?r = "dropWhile is_digit key"
  from assms have nb: "CHR ''}'' \<notin> set key"
    by (auto simp: literal_key_def list_all_iff)
  from assms have nr: "\<not> repetition_count key"
    by (simp add: literal_key_def)
  show ?thesis
  proof (cases "?a = []")
    case True
    then show ?thesis
      by (simp add: braces_def takeWhile_digits_brace dropWhile_digits_brace)
  next
    case False
    with nr have r: "?r \<noteq> []" and nc: "\<not> (hd ?r = CHR '','' \<and> list_all is_digit (tl ?r))"
      by (auto simp: repetition_count_def Let_def)
    from r obtain c r1 where cr: "?r = c # r1" by (cases ?r) auto
    have "set ?r \<subseteq> set key" by (metis set_dropWhileD subsetI)
    with cr nb have c: "c \<noteq> CHR ''}''" and r1: "CHR ''}'' \<notin> set r1" by auto
    show ?thesis
    proof (cases "c = CHR '',''")
      case False
      with c cr show ?thesis
        by (simp add: braces_def takeWhile_digits_brace dropWhile_digits_brace Let_def)
    next
      case True
      with nc cr have nd: "\<not> list_all is_digit r1" by simp
      then have "dropWhile is_digit r1 \<noteq> []"
        by (simp add: list_all_iff)
      then obtain d r2 where d: "dropWhile is_digit r1 = d # r2"
        by (cases "dropWhile is_digit r1") auto
      have "set (dropWhile is_digit r1) \<subseteq> set r1" by (metis set_dropWhileD subsetI)
      with d r1 have "d \<noteq> CHR ''}''" by auto
      with True cr d show ?thesis
        by (simp add: braces_def takeWhile_digits_brace dropWhile_digits_brace Let_def)
    qed
  qed
qed

lemma lex1_plain:
  "c \<notin> set (CHR 0x5C # ''^$.*+?()[{|'') \<Longrightarrow> lex1 n c cs = Inr (T_atom (Chars ((=) c)), 1)"
  by (simp add: lex1_def)

lemma tokens_plain:
  "\<forall>c\<in>set cs. c \<notin> set (CHR 0x5C # ''^$.*+?()[{|'') \<Longrightarrow>
     tokens n 0 cs = Inr (map (\<lambda>c. T_atom (Chars ((=) c))) cs)"
proof (induction cs)
  case Nil
  then show ?case by simp
next
  case (Cons a cs)
  then have a: "lex1 n a cs = Inr (T_atom (Chars ((=) a)), 1)"
    by (intro lex1_plain) simp
  from Cons have "tokens n 0 cs = Inr (map (\<lambda>c. T_atom (Chars ((=) c))) cs)"
    by simp
  with a show ?case by simp
qed

lemma tokens_placeholder:
  assumes "literal_key key"
  shows "tokens n 0 (placeholder key) = Inr (map (\<lambda>c. T_atom (Chars ((=) c))) (placeholder key))"
proof -
  have "\<forall>c\<in>set (key @ ''}''). c \<notin> set (CHR 0x5C # ''^$.*+?()[{|'')"
    using assms by (auto simp: literal_key_def list_all_iff)
  then have "tokens n 0 (key @ ''}'') = Inr (map (\<lambda>c. T_atom (Chars ((=) c))) (key @ ''}''))"
    by (rule tokens_plain)
  then show ?thesis
    by (simp add: placeholder_def lex1_def braces_literal[OF assms])
qed

lemma parse_atoms:
  "parse (map (\<lambda>c. T_atom (Chars ((=) c))) cs) (k, alts, cur) fs g =
     parse [] (k, alts, rev (map (\<lambda>c. (Chars ((=) c), True)) cs) @ cur) fs g"
  by (induction cs arbitrary: cur) (simp_all add: add_term_def)

lemma new_RegExp_placeholder:
  assumes "literal_key key"
  shows "new_RegExp (placeholder key)
           = Inr (sequence (map (\<lambda>c. Chars ((=) c)) (placeholder key)), 0)"
proof -
  have "\<forall>c\<in>set (placeholder key). c \<noteq> CHR 0x5C \<and> c \<noteq> CHR ''['' \<and> c \<noteq> CHR ''(''"
    using assms by (auto simp: literal_key_def list_all_iff placeholder_def)
  then have g: "count_groups False (placeholder key) = 0"
    by (rule count_groups_plain)
  show ?thesis
    by (simp add: new_RegExp_def g tokens_placeholder[OF assms] parse_atoms close_frame_def
        rev_map comp_def)
qed

lemma replace_scan_literal:
  "pat \<noteq> [] \<Longrightarrow>
     replace_scan (sequence (map (\<lambda>c. Chars ((=) c)) pat)) 0 repl pre s
       = replace_from pat repl pre s"
proof (induction pat repl pre s rule: replace_from.induct)
  case (1 pat repl pre)
  then show ?case
    by (simp add: replace_scan.simps[of _ _ _ _ "[]"] matcher_literal)
next
  case (2 pat repl pre c cs)
  define s where "s = c # cs"
  show ?case
  proof (cases "prefix pat s")
    case True
    then have len: "length pat \<le> length s" by (rule prefix_length_le)
    from True have tk: "take (length pat) s = pat"
      by (metis append_eq_conv_conj prefixE)
    have dl: "length s - length (drop (length pat) s) = length pat"
      using len by simp
    have nz: "length pat \<noteq> 0" using 2 by simp
    have IH: "replace_scan (sequence (map (\<lambda>c. Chars ((=) c)) pat)) 0 repl (pre @ pat)
            (drop (length pat) s)
          = replace_from pat repl (pre @ pat) (drop (length pat) s)"
      using 2 True by (simp add: s_def)
    have "replace_scan (sequence (map (\<lambda>c. Chars ((=) c)) pat)) 0 repl pre s
          = expand pre pat (drop (length pat) s) repl
            @ replace_from pat repl (pre @ pat) (drop (length pat) s)"
      by (subst replace_scan.simps)
         (simp add: matcher_literal True get_substitution_no_groups dl tk 2(3) IH
            del: length_drop)
    also have "\<dots> = replace_from pat repl pre s"
      using True 2(3) by (simp add: s_def)
    finally show ?thesis by (simp add: s_def)
  next
    case False
    have IH: "replace_scan (sequence (map (\<lambda>c. Chars ((=) c)) pat)) 0 repl (pre @ [c]) cs
          = replace_from pat repl (pre @ [c]) cs"
      using 2 False by (simp add: s_def)
    have "replace_scan (sequence (map (\<lambda>c. Chars ((=) c)) pat)) 0 repl pre (c # cs)
          = c # replace_from pat repl (pre @ [c]) cs"
      using False
      by (subst replace_scan.simps) (simp add: matcher_literal s_def IH)
    then show ?thesis using False by (simp add: s_def)
  qed
qed

lemma js_replace_placeholder:
  "literal_key key \<Longrightarrow>
     js_replace (placeholder key) repl s = Inr (replace_all (placeholder key) repl s)"
proof -
  assume k: "literal_key key"
  have ne: "placeholder key \<noteq> []" by (simp add: placeholder_def)
  show ?thesis
    by (simp add: js_replace_def new_RegExp_placeholder[OF k] regexp_replace_def replace_all_def
        replace_scan_literal[OF ne])
qed

lemma set_own_properties: "set (own_properties obj) = set obj"
  by (auto simp: own_properties_def)

lemma render_keys_literal:
  assumes "\<forall>kv\<in>set keys. literal_key (fst kv) \<and> map_of data (fst kv) \<noteq> None"
    and "map_of data ''hasOwnProperty'' = None"
  shows "render_keys template data keys raw = Inr (render_literal template keys raw)"
  using assms(1)
proof (induction keys arbitrary: template)
  case Nil
  then show ?case by simp
next
  case (Cons kv keys)
  obtain key v where kv: "kv = (key, v)" by (cases kv)
  from Cons.prems kv have k: "literal_key key" and own: "map_of data key \<noteq> None" by auto
  from Cons.prems have rest: "\<forall>kv\<in>set keys. literal_key (fst kv) \<and> map_of data (fst kv) \<noteq> None"
    by simp
  show ?case
    using own assms(2) Cons.IH[OF rest]
    by (simp add: kv hasOwnProperty_def js_replace_placeholder[OF k])
qed

lemma Template_render_literal:
  assumes "list_all (\<lambda>kv. literal_key (fst kv)) data" and "''hasOwnProperty'' \<notin> fst ` set data"
  shows "Template_render template data raw
           = Inr (render_literal template (own_properties data) raw)"
proof -
  have "\<forall>kv\<in>set (own_properties data). literal_key (fst kv) \<and> map_of data (fst kv) \<noteq> None"
    using assms(1) by (auto simp: set_own_properties list_all_iff map_of_eq_None_iff)
  moreover have "map_of data ''hasOwnProperty'' = None"
    using assms(2) by (simp add: map_of_eq_None_iff)
  ultimately show ?thesis
    unfolding Template_render_def by (rule render_keys_literal)
qed

lemma literal_key_examples:
  "literal_key ''key''" "literal_key ''value''" "literal_key ''items''"
  by (simp_all add: literal_key_def repetition_count_def is_digit_def)

lemma own_properties_key_value:
  "own_properties [(''key'', a), (''value'', b)] = [(''key'', a), (''value'', b)]"
  "own_properties [(''items'', c)] = [(''items'', c)]"
  by (simp_all add: own_properties_def array_index_def is_digit_def)

lemma render_item_literal:
  "Template_render template [(''key'', key), (''value'', v)] raw
     = Inr (render_literal template [(''key'', key), (''value'', v)] raw)"
  using Template_render_literal[of "[(''key'', key), (''value'', v)]" template raw]
  by (simp add: literal_key_examples own_properties_key_value)

lemma renderObject_keys_literal:
  assumes "\<forall>kv\<in>set keys. map_of data (fst kv) \<noteq> None"
    and "map_of data ''hasOwnProperty'' = None"
  shows "renderObject_keys template data keys raw
           = Inr (renderObject_literal template keys raw)"
  using assms(1)
proof (induction keys)
  case Nil
  then show ?case by simp
next
  case (Cons kv keys)
  obtain key v where kv: "kv = (key, v)" by (cases kv)
  from Cons.prems kv have own: "map_of data key \<noteq> None" by auto
  from Cons.prems have rest: "\<forall>kv\<in>set keys. map_of data (fst kv) \<noteq> None" by simp
  show ?case
    using own assms(2) Cons.IH[OF rest]
    by (simp add: kv hasOwnProperty_def render_item_literal del: render_literal.simps)
qed

lemma Template_renderObject_literal:
  assumes "''hasOwnProperty'' \<notin> fst ` set data"
  shows "Template_renderObject template data raw
           = Inr (renderObject_literal template (own_properties data) raw)"
proof -
  have "\<forall>kv\<in>set (own_properties data). map_of data (fst kv) \<noteq> None"
    by (auto simp: set_own_properties map_of_eq_None_iff)
  moreover have "map_of data ''hasOwnProperty'' = None"
    using assms by (simp add: map_of_eq_None_iff)
  ultimately show ?thesis
    unfolding Template_renderObject_def by (rule renderObject_keys_literal)
qed

lemma summary_markup_literal:
  assumes "''hasOwnProperty'' \<notin> fst ` set formatted"
  shows "summary_markup formatted = Inr (markup_literal formatted)"
  using Template_render_literal[of "[(''items'', renderObject_literal item_template
                                        (own_properties formatted) False)]"
                                   "''<ul>{items}</ul>''" True]
  by (simp add: summary_markup_def Template_renderObject_literal[OF assms] markup_literal_def
      literal_key_examples own_properties_key_value del: render_literal.simps)

subsection \<open>Evaluation of regular expressions\<close>

lemma tokens_eval:
  "tokens n k (c # cs) =
     (if k = 0 then
        (case lex1 n c cs of
           Inl e \<Rightarrow> Inl e
         | Inr (t, len) \<Rightarrow>
             (case tokens n (len - 1) cs of Inl e \<Rightarrow> Inl e | Inr ts \<Rightarrow> Inr (t # ts)))
      else tokens n (k - 1) cs)"
  by (cases k) simp_all

lemma class_atoms_eval:
  "class_atoms k (c # cs) =
     (if k = 0 then
        (if c = CHR 0x5C then fst (class_escape cs) # class_atoms (snd (class_escape cs)) cs
         else if c = CHR ''-'' then Dash # class_atoms 0 cs
         else One (of_char c) # class_atoms 0 cs)
      else class_atoms (k - 1) cs)"
  by (cases k) simp_all

declare tokens.simps(2,3) [simp del]
declare class_atoms.simps(2,3) [simp del]

lemmas regexp_eval =
  js_replace_def new_RegExp_def regexp_replace_def tokens_eval lex1_def
  quantifier_def braces_def is_digit_def atom_escape_def char_class_def
  class_atoms_eval class_escape_def char_escape_def
  class_escape_chars_def control_escape_def octal_escape_def is_octal_def is_hex_def
  is_letter_def atom_chars_def atom_code_def code_chars_def
  digits_value_def digit_value_def add_term_def group_term_def close_frame_def
  sequence_def replace_scan.simps repeat_matcher.simps dot_chars_def word_char_def
  digit_chars_def space_chars_def Let_def

lemmas render_eval =
  Template_render_def Template_renderObject_def hasOwnProperty_def placeholder_def
  own_properties_def array_index_def Template_escape_def replace_all_def regexp_eval

text \<open>
  The six expressions of \<open>Template._escape\<close> are replacements of a literal character.
\<close>

lemma js_replace_plain:
  assumes "pat \<noteq> []" and "\<forall>c\<in>set pat. c \<notin> set (CHR 0x5C # ''^$.*+?()[{|'')"
  shows "js_replace pat repl s = Inr (replace_all pat repl s)"
proof -
  have "\<forall>c\<in>set pat. c \<noteq> CHR 0x5C \<and> c \<noteq> CHR ''['' \<and> c \<noteq> CHR ''(''"
    using assms(2) by auto
  then have g: "count_groups False pat = 0"
    by (rule count_groups_plain)
  have "new_RegExp pat = Inr (sequence (map (\<lambda>c. Chars ((=) c)) pat), 0)"
    by (simp add: new_RegExp_def g tokens_plain[OF assms(2)] parse_atoms close_frame_def
        rev_map comp_def)
  then show ?thesis
    by (simp add: js_replace_def regexp_replace_def replace_all_def
        replace_scan_literal[OF assms(1)])
qed

lemma code_chars_slash: "code_chars 47 = (=) CHR ''/''"
proof (rule ext)
  fix c
  have "of_char CHR ''/'' = (47 :: nat)" by simp
  then have "(of_char c = (47 :: nat)) = (of_char c = (of_char CHR ''/'' :: nat))" by simp
  also have "\<dots> = (CHR ''/'' = c)" by (auto simp only: of_char_eq_iff)
  finally show "code_chars 47 c = (CHR ''/'' = c)" by (simp add: code_chars_def)
qed

lemma escape_expressions:
  "js_replace ''&'' repl s = Inr (replace_all ''&'' repl s)"
  "js_replace [CHR 0x22] repl s = Inr (replace_all [CHR 0x22] repl s)"
  "js_replace [CHR 0x27] repl s = Inr (replace_all [CHR 0x27] repl s)"
  "js_replace ''<'' repl s = Inr (replace_all ''<'' repl s)"
  "js_replace ''>'' repl s = Inr (replace_all ''>'' repl s)"
  "js_replace [CHR 0x5C, CHR ''/''] repl s = Inr (replace_all ''/'' repl s)"
proof -
  have "new_RegExp [CHR 0x5C, CHR ''/''] = Inr (sequence (map (\<lambda>c. Chars ((=) c)) ''/''), 0)"
    by (simp add: regexp_eval code_chars_slash[unfolded code_chars_def])
  then show "js_replace [CHR 0x5C, CHR ''/''] repl s = Inr (replace_all ''/'' repl s)"
    using replace_scan_literal[of "''/''" repl "[]" s]
    by (simp add: js_replace_def regexp_replace_def replace_all_def)
qed (simp_all add: js_replace_plain)

text \<open>
  Examples of the language definition and of the handling of replacement text and of
  patterns that are not well formed.
\<close>

lemma regexp_examples:
  "js_replace ''a|ab'' ''[$&]'' ''abc'' = Inr ''[a]bc''"
  "js_replace ''((a)|(ab))((c)|(bc))'' ''[$1,$2,$3,$4,$5,$6]'' ''abc'' = Inr ''[a,a,,bc,,bc]''"
  "js_replace ''a[a-z]{2,4}'' ''[$&]'' ''abcdefghi'' = Inr ''[abcde]fghi''"
  "js_replace ''a[a-z]{2,4}?'' ''[$&]'' ''abcdefghi'' = Inr ''[abc]defghi''"
  "js_replace ''(aa|aabaac|ba|b|c)*'' ''[$&,$1]'' ''aabaac'' = Inr ''[aaba,ba][,]a[c,c][,]''"
  "js_replace ''(z)((a+)?(b+)?(c))*'' ''[$&,$1,$2,$3,$4,$5]'' ''zaacbbbcac''
     = Inr ''[zaacbbbcac,z,ac,a,,c]''"
  "js_replace ''(a*)*'' ''[$&,$1]'' ''b'' = Inr ''[,]b[,]''"
  "js_replace (''(a*)b'' @ [CHR 0x5C] @ ''1+'') ''[$&,$1]'' ''baaaac'' = Inr ''[b,]aaaac''"
  "js_replace (''(?=(a+))a*b'' @ [CHR 0x5C] @ ''1'') ''[$&,$1]'' ''baaabac'' = Inr ''baa[aba,a]c''"
  "js_replace (''(.*?)a(?!(a+)b'' @ [CHR 0x5C] @ ''2c)'' @ [CHR 0x5C] @ ''2(.*)'') ''[$1,$2,$3]''
     ''baaabaac'' = Inr ''[ba,,abaac]''"
  "js_replace (''['' @ [CHR 0x5C] @ ''d-z]+|'' @ [CHR 0x5C] @ ''bfoo'' @ [CHR 0x5C] @ ''b'') ''#''
     ''foo a5-z food'' = Inr ''# a# food''"
  "js_replace ''b*'' ''X'' ''abc'' = Inr ''XaXXcX''"
  "js_replace ''(a)(b)?'' ''[$1|$2|$10|$01|$3|$$]'' ''ab a'' = Inr ''[a|b|a0|a|$3|$] [a||a0|a|$3|$]''"
  "js_replace ''[z-a]'' ''#'' ''abc'' = Inl SyntaxError"
  "js_replace ''a{2,1}'' ''#'' ''abc'' = Inl SyntaxError"
  "js_replace ''a**'' ''#'' ''abc'' = Inl SyntaxError"
  "js_replace ''(a'' ''#'' ''abc'' = Inl SyntaxError"
  "js_replace ''a)'' ''#'' ''abc'' = Inl SyntaxError"
  "js_replace ''x{2'' ''#'' ''x{2 xx'' = Inr ''# xx''"
  "js_replace ''(.+?): .+'' ''[$1]'' ''A: x'' = Inr ''[A]''"
  "js_replace ''(.+?): .+'' ''[$1]'' ''constructor: x'' = Inr ''[constructor]''"
  "js_replace ''(.+?): .+'' ''[$1]'' ''ab: cd: ef'' = Inr ''[ab]''"
  by (simp_all add: regexp_eval)

subsection \<open>Template: substitution in passes\<close>

text \<open>
  C9: substitution runs one pass per key over the whole current text, so a placeholder
  that an earlier key's value brought in is substituted by a later key's pass:
  rendering \<open>{a}\<close> with \<open>a = {b}\<close> and \<open>b = X\<close> gives \<open>X\<close>, raw or escaped, and a label
  that spells \<open>{value}\<close> is replaced by the value in the list item built for it.
\<close>

theorem C9_value_placeholder_expanded:
  "Template_render ''{a}'' [(''a'', ''{b}''), (''b'', ''X'')] True = Inr ''X''
   \<and> Template_render ''{a}'' [(''a'', ''{b}''), (''b'', ''X'')] True \<noteq> Inr ''{b}''
   \<and> Template_render ''{a}'' [(''a'', ''{b}''), (''b'', ''X'')] False = Inr ''X''
   \<and> Template_renderObject ''<li>{key}: {value}'' [(''{value}'', ''1.00'')] False
       = Inr ''<li>1.00: 1.00''"
  by (simp add: render_eval)

subsection \<open>Evaluation of the numeric functions\<close>

lemma floor_rat_numeral_div [simp]:
  "\<lfloor>numeral a / numeral b :: rat\<rfloor> = numeral a div numeral b"
  by (metis floor_divide_of_int_eq of_int_numeral)

lemma ceiling_rat_numeral_div [simp]:
  "\<lceil>numeral a / numeral b :: rat\<rceil> = - (- numeral a div numeral b)"
  by (metis ceiling_divide_eq_div of_int_numeral)

lemma bit_length_eval:
  "n \<le> 0 \<Longrightarrow> bit_length n = 0"
  "0 < n \<Longrightarrow> bit_length n = Suc (bit_length (n div 2))"
  by (simp_all add: bit_length.simps)

lemma dec_digits_eval:
  "n \<le> 0 \<Longrightarrow> dec_digits n = []"
  "0 < n \<Longrightarrow> dec_digits n = dec_digits (n div 10) @ [''0123456789'' ! nat (n mod 10)]"
  by (simp_all add: dec_digits.simps)

lemmas number_eval =
  round64_def floor_log2_def bit_length_eval pow2_def round_half_even_def Let_def
  to_number_def trim_def is_space_def parse_radix_def
  parse_unsigned_decimal_def is_digit_def parse_exponent_def digits_value_def
  digit_value_def pow10_def all_digits_def negate_def
  toFixed_def decimal_def dec_digits_eval

lemma round64_examples:
  "round64 (3 / 2) = Fin (3 / 2)" "round64 (9 / 4) = Fin (9 / 4)" "round64 (3 / 4) = Fin (3 / 4)"
  "round64 1 = Fin 1"
  by (simp_all add: number_eval)

lemma to_number_examples:
  "to_number ''1.5'' = Fin (3 / 2)" "to_number ''2.25'' = Fin (9 / 4)"
  "to_number ''0.75'' = Fin (3 / 4)" "to_number ''abc'' = NaN" "to_number ''1'' = Fin 1"
  by (simp_all add: number_eval)

lemma toFixed_examples:
  "toFixed (Fin (9 / 4)) 2 = ''2.25''" "toFixed NaN 2 = ''NaN''" "toFixed (Fin 1) 2 = ''1.00''"
  by (simp_all add: number_eval)

subsection \<open>The loop of forEach\<close>

lemma forEach_loop_drop:
  "i \<le> length xs \<Longrightarrow> forEach_loop cb xs i (length xs) s = run_items cb (drop i xs) s"
proof (induction "length xs - i" arbitrary: i s)
  case 0
  then show ?case by (simp add: forEach_loop.simps)
next
  case (Suc n)
  then have lt: "i < length xs" by simp
  then have d: "drop i xs = xs ! i # drop (Suc i) xs" by (simp add: Cons_nth_drop_Suc)
  show ?case
  proof (cases "cb (xs ! i) s")
    case (Inl e)
    then show ?thesis using lt d by (simp add: forEach_loop.simps)
  next
    case (Inr s')
    have "forEach_loop cb xs (i + 1) (length xs) s' = run_items cb (drop (i + 1) xs) s'"
      using Suc lt by (intro Suc.hyps) auto
    then show ?thesis using lt d Inr by (simp add: forEach_loop.simps[of cb xs i])
  qed
qed

lemma forEach_run_items:
  "QueryResult_forEach cb this s =
     (case run_items cb (result this) s of Inl e \<Rightarrow> Inl e | Inr s' \<Rightarrow> Inr (this, s'))"
  by (simp add: QueryResult_forEach_def forEach_loop_drop)

lemma run_items_collect:
  "run_items (\<lambda>item (acc, s1). Inr (acc @ [item], s1)) xs (acc0, s) = Inr (acc0 @ xs, s)"
  by (induction xs arbitrary: acc0) auto

lemma all_result: "QueryResult_all this s = Inr (result this, s)"
  by (simp add: QueryResult_all_def QueryResult_map_def forEach_run_items run_items_collect)

lemma run_items_map_length:
  "run_items (\<lambda>item (acc, s1). case f item s1 of Inl e \<Rightarrow> Inl e
                                   | Inr (y, s2) \<Rightarrow> Inr (acc @ [y], s2)) xs (acc0, s)
     = Inr (ys, s') \<Longrightarrow> length ys = length acc0 + length xs"
proof (induction xs arbitrary: acc0 s)
  case Nil
  then show ?case by simp
next
  case (Cons x xs)
  then show ?case
    by (cases "f x s") (auto split: prod.splits)
qed

lemma run_items_log:
  "run_items (\<lambda>item log. Inr (log @ [item])) xs log0 = Inr (log0 @ xs)"
  by (induction xs arbitrary: log0) auto

subsection \<open>QueryResult\<close>

text \<open>
  C7: a QueryResult can be iterated again and again.  \<open>all\<close> returns the snapshot, whose
  length is the \<open>length\<close> field set by the constructor; \<open>forEach\<close> visits the snapshot
  in order and returns the QueryResult unchanged, whatever the callback does, so that a
  later \<open>all\<close> returns the same sequence; \<open>map\<close> returns one result per item.
\<close>

theorem C7_result_set_reiterable:
  "QueryResult_all (new_QueryResult res) s = Inr (res, s)
   \<and> length res = length_qr (new_QueryResult res)
   \<and> QueryResult_forEach (\<lambda>item log. Inr (log @ [item])) this [] = Inr (this, result this)
   \<and> (\<forall>this' s'. QueryResult_forEach cb this s = Inr (this', s') \<longrightarrow>
         this' = this \<and> QueryResult_all this' s' = Inr (result this, s'))
   \<and> (\<forall>ys s'. QueryResult_map f this s = Inr (ys, s') \<longrightarrow> length ys = length (result this))"
proof (intro conjI allI impI)
  show "QueryResult_all (new_QueryResult res) s = Inr (res, s)"
    by (simp add: all_result new_QueryResult_def)
  show "length res = length_qr (new_QueryResult res)"
    by (simp add: new_QueryResult_def)
  show "QueryResult_forEach (\<lambda>item log. Inr (log @ [item])) this [] = Inr (this, result this)"
    by (simp add: forEach_run_items run_items_log)
next
  fix this' s'
  assume a: "QueryResult_forEach cb this s = Inr (this', s')"
  then show "this' = this"
    by (auto simp: forEach_run_items split: sum.splits)
  then show "QueryResult_all this' s' = Inr (result this, s')"
    by (simp add: all_result)
next
  fix ys s'
  assume "QueryResult_map f this s = Inr (ys, s')"
  then show "length ys = length (result this)"
    by (auto simp: QueryResult_map_def forEach_run_items split: sum.splits
             dest: run_items_map_length)
qed

theorem C7_result_set_reiterable_witness:
  "QueryResult_all (new_QueryResult [0, 2, 3]) (0::nat) = Inr ([0, 2, 3], 0)
   \<and> length [0, 2, 3 :: nat] = length_qr (new_QueryResult [0, 2, 3])
   \<and> QueryResult_forEach (\<lambda>item log. Inr (log @ [item])) (new_QueryResult [0, 2, 3]) []
       = Inr (new_QueryResult [0, 2, 3], [0, 2, 3])
   \<and> QueryResult_forEach (\<lambda>item n. Inr (n + item)) (new_QueryResult [0, 2, 3]) (0::nat)
       = Inr (new_QueryResult [0, 2, 3], 5)
   \<and> QueryResult_all (new_QueryResult [0, 2, 3]) (5::nat) = Inr ([0, 2, 3], 5)
   \<and> QueryResult_map (\<lambda>item n. Inr (2 * item, n)) (new_QueryResult [0, 2, 3]) (0::nat)
       = Inr ([0, 4, 6], 0)
   \<and> length [0, 4, 6 :: nat] = length (result (new_QueryResult [0, 2, 3]))"
  using C7_result_set_reiterable
    [of "[0, 2, 3]" "0::nat" "new_QueryResult [0, 2, 3]" "\<lambda>item n. Inr (n + item)"
        "\<lambda>item n. Inr (2 * item, n)"]
  by (simp add: forEach_run_items QueryResult_map_def new_QueryResult_def all_result)

subsection \<open>Summarize: the aggregation\<close>

lemmas summarize_eval =
  Summarize_run_def Summarize_totals_def Summarize_row_def Summarize_render_def
  Summarize_formatTotals_def Summarize_shouldRender_def summary_markup_def
  forEach_run_items new_QueryResult_def Xpath_findAll_def Xpath_find_def ADMIN_ROWS_def
  NOTE_CELL_def HOUR_CELL_def TARGET_OUTPUT_def OUTPUT_ID_def getElementById_def
  insertBefore_def get_property_def set_property_def Object_prototype_names_def
  line_terminator_def sublist_Cons_right item_template_def render_eval

lemmas program_eval =
  AdminHelper_init_def AdminHelper_iterateRows_def Highlight_def Summarize_def
  Highlight_run_def Highlight_row_def HIGHLIGHT_CLASS_def classList_add_def summarize_eval

text \<open>
  C1: a row without a note cell is not skipped.  \<open>Xpath.find\<close> returns null for it and
  the callback reads \<open>textContent\<close> of null, so the run ends with a TypeError; the same
  happens for a row whose note matches and which has no hours cell.  Both runs are on a
  page with one ADMIN row and the anchor.
\<close>

theorem C1_absent_cell_throws:
  "Summarize_run (new_QueryResult [0])
     \<lparr>trs = [\<lparr>classList = [],
               cells = [\<lparr>cell_class = ''project'', textContent = ''ADMIN'',
                         span_texts = [''ADMIN'']\<rparr>,
                        \<lparr>cell_class = ''hours'', textContent = ''1.5'', span_texts = []\<rparr>]\<rparr>],
      page = [\<lparr>tag = ''div'', elem_id = ''TSEntryInline'', innerHTML = []\<rparr>]\<rparr>
     = Inl TypeError
   \<and> Summarize_run (new_QueryResult [0])
     \<lparr>trs = [\<lparr>classList = [],
               cells = [\<lparr>cell_class = ''project'', textContent = ''ADMIN'',
                         span_texts = [''ADMIN'']\<rparr>,
                        \<lparr>cell_class = ''notes'', textContent = ''A: x'', span_texts = []\<rparr>]\<rparr>],
      page = [\<lparr>tag = ''div'', elem_id = ''TSEntryInline'', innerHTML = []\<rparr>]\<rparr>
     = Inl TypeError
   \<and> Xpath_findAll ADMIN_ROWS
     \<lparr>trs = [\<lparr>classList = [],
               cells = [\<lparr>cell_class = ''project'', textContent = ''ADMIN'',
                         span_texts = [''ADMIN'']\<rparr>,
                        \<lparr>cell_class = ''hours'', textContent = ''1.5'', span_texts = []\<rparr>]\<rparr>],
      page = [\<lparr>tag = ''div'', elem_id = ''TSEntryInline'', innerHTML = []\<rparr>]\<rparr>
     = new_QueryResult [0]"
  by (simp add: summarize_eval)

text \<open>
  C3: three rows with the notes \<open>A: x\<close>, \<open>B: y\<close>, \<open>A: z\<close> and the hours \<open>1.5\<close>,
  \<open>2.25\<close>, \<open>0.75\<close> give the totals \<open>A = 2.25\<close> and \<open>B = 2.25\<close>, formatted to
  \<open>2.25\<close> each; the markup built from them has one list item per label, and its text
  contains \<open>A: 2.25\<close> once and \<open>B: 2.25\<close> once.
\<close>

theorem C3_aggregation_example:
  assumes "Xpath_find NOTE_CELL (trs doc ! r1) = Some n1" "textContent n1 = ''A: x''"
    and "Xpath_find HOUR_CELL (trs doc ! r1) = Some h1" "textContent h1 = ''1.5''"
    and "Xpath_find NOTE_CELL (trs doc ! r2) = Some n2" "textContent n2 = ''B: y''"
    and "Xpath_find HOUR_CELL (trs doc ! r2) = Some h2" "textContent h2 = ''2.25''"
    and "Xpath_find NOTE_CELL (trs doc ! r3) = Some n3" "textContent n3 = ''A: z''"
    and "Xpath_find HOUR_CELL (trs doc ! r3) = Some h3" "textContent h3 = ''0.75''"
  shows "Summarize_totals (new_QueryResult [r1, r2, r3]) doc
           = Inr [(''A'', Num (Fin (9 / 4))), (''B'', Num (Fin (9 / 4)))]
         \<and> Summarize_formatTotals [(''A'', Num (Fin (9 / 4))), (''B'', Num (Fin (9 / 4)))] None
           = Inr [(''A'', ''2.25''), (''B'', ''2.25'')]
         \<and> summary_markup [(''A'', ''2.25''), (''B'', ''2.25'')]
           = Inr ''<ul><li>A: <span class=\"admin_helper_hours\">2.25</span><li>B: <span class=\"admin_helper_hours\">2.25</span></ul>''
         \<and> text_of_markup False
              ''<ul><li>A: <span class=\"admin_helper_hours\">2.25</span><li>B: <span class=\"admin_helper_hours\">2.25</span></ul>''
           = ''A: 2.25B: 2.25''
         \<and> count_occurrences ''A: 2.25''
              (text_of_markup False
                 ''<ul><li>A: <span class=\"admin_helper_hours\">2.25</span><li>B: <span class=\"admin_helper_hours\">2.25</span></ul>'') = 1
         \<and> count_occurrences ''B: 2.25''
              (text_of_markup False
                 ''<ul><li>A: <span class=\"admin_helper_hours\">2.25</span><li>B: <span class=\"admin_helper_hours\">2.25</span></ul>'') = 1"
proof -
  have totals: "Summarize_totals (new_QueryResult [r1, r2, r3]) doc
           = Inr [(''A'', Num (Fin (9 / 4))), (''B'', Num (Fin (9 / 4)))]"
    using assms
    by (simp add: Summarize_totals_def forEach_run_items new_QueryResult_def Summarize_row_def
        line_terminator_def to_number_examples round64_examples get_property_def
        set_property_def Object_prototype_names_def)
  have fmt: "Summarize_formatTotals [(''A'', Num (Fin (9 / 4))), (''B'', Num (Fin (9 / 4)))] None
           = Inr [(''A'', ''2.25''), (''B'', ''2.25'')]"
    by (simp add: Summarize_formatTotals_def own_properties_def array_index_def is_digit_def
        hasOwnProperty_def toFixed_examples set_property_def)
  have markup: "summary_markup [(''A'', ''2.25''), (''B'', ''2.25'')]
           = Inr ''<ul><li>A: <span class=\"admin_helper_hours\">2.25</span><li>B: <span class=\"admin_helper_hours\">2.25</span></ul>''"
    by (simp add: summary_markup_def item_template_def render_eval)
  show ?thesis
    using totals fmt markup by simp
qed

theorem C3_aggregation_example_witness:
  "Summarize_run (new_QueryResult [0, 1, 2])
     \<lparr>trs = [\<lparr>classList = [],
               cells = [\<lparr>cell_class = ''notes'', textContent = ''A: x'', span_texts = []\<rparr>,
                        \<lparr>cell_class = ''hours'', textContent = ''1.5'', span_texts = []\<rparr>]\<rparr>,
              \<lparr>classList = [],
               cells = [\<lparr>cell_class = ''notes'', textContent = ''B: y'', span_texts = []\<rparr>,
                        \<lparr>cell_class = ''hours'', textContent = ''2.25'', span_texts = []\<rparr>]\<rparr>,
              \<lparr>classList = [],
               cells = [\<lparr>cell_class = ''notes'', textContent = ''A: z'', span_texts = []\<rparr>,
                        \<lparr>cell_class = ''hours'', textContent = ''0.75'', span_texts = []\<rparr>]\<rparr>],
      page = [\<lparr>tag = ''div'', elem_id = ''TSEntryInline'', innerHTML = []\<rparr>]\<rparr>
   = Inr
     \<lparr>trs = [\<lparr>classList = [],
               cells = [\<lparr>cell_class = ''notes'', textContent = ''A: x'', span_texts = []\<rparr>,
                        \<lparr>cell_class = ''hours'', textContent = ''1.5'', span_texts = []\<rparr>]\<rparr>,
              \<lparr>classList = [],
               cells = [\<lparr>cell_class = ''notes'', textContent = ''B: y'', span_texts = []\<rparr>,
                        \<lparr>cell_class = ''hours'', textContent = ''2.25'', span_texts = []\<rparr>]\<rparr>,
              \<lparr>classList = [],
               cells = [\<lparr>cell_class = ''notes'', textContent = ''A: z'', span_texts = []\<rparr>,
                        \<lparr>cell_class = ''hours'', textContent = ''0.75'', span_texts = []\<rparr>]\<rparr>],
      page = [\<lparr>tag = ''div'', elem_id = ''admin_helper'',
               innerHTML = ''<ul><li>A: <span class=\"admin_helper_hours\">2.25</span><li>B: <span class=\"admin_helper_hours\">2.25</span></ul>''\<rparr>,
              \<lparr>tag = ''div'', elem_id = ''TSEntryInline'', innerHTML = []\<rparr>]\<rparr>"
  using C3_aggregation_example
    [of "\<lparr>trs = [\<lparr>classList = [],
               cells = [\<lparr>cell_class = ''notes'', textContent = ''A: x'', span_texts = []\<rparr>,
                        \<lparr>cell_class = ''hours'', textContent = ''1.5'', span_texts = []\<rparr>]\<rparr>,
              \<lparr>classList = [],
               cells = [\<lparr>cell_class = ''notes'', textContent = ''B: y'', span_texts = []\<rparr>,
                        \<lparr>cell_class = ''hours'', textContent = ''2.25'', span_texts = []\<rparr>]\<rparr>,
              \<lparr>classList = [],
               cells = [\<lparr>cell_class = ''notes'', textContent = ''A: z'', span_texts = []\<rparr>,
                        \<lparr>cell_class = ''hours'', textContent = ''0.75'', span_texts = []\<rparr>]\<rparr>],
      page = [\<lparr>tag = ''div'', elem_id = ''TSEntryInline'', innerHTML = []\<rparr>]\<rparr>"
        0 "\<lparr>cell_class = ''notes'', textContent = ''A: x'', span_texts = []\<rparr>"
        "\<lparr>cell_class = ''hours'', textContent = ''1.5'', span_texts = []\<rparr>"
        1 "\<lparr>cell_class = ''notes'', textContent = ''B: y'', span_texts = []\<rparr>"
        "\<lparr>cell_class = ''hours'', textContent = ''2.25'', span_texts = []\<rparr>"
        2 "\<lparr>cell_class = ''notes'', textContent = ''A: z'', span_texts = []\<rparr>"
        "\<lparr>cell_class = ''hours'', textContent = ''0.75'', span_texts = []\<rparr>"]
  by (simp add: Summarize_run_def Summarize_render_def Summarize_shouldRender_def
      Xpath_find_def NOTE_CELL_def HOUR_CELL_def sublist_Cons_right TARGET_OUTPUT_def
      OUTPUT_ID_def getElementById_def insertBefore_def own_properties_def array_index_def
      is_digit_def)

subsection \<open>Summarize: labels that name inherited properties\<close>

text \<open>
  C4: on a page with the anchor and one ADMIN row whose note is \<open>constructor: x\<close>, a
  label is aggregated, so the totals are not empty and \<open>_shouldRender\<close> holds, but the
  render step inserts nothing: it throws a TypeError.  The label names a property that
  the totals object inherits, so its total is the string that \<open>+=\<close> makes of the
  inherited function, and \<open>_formatTotals\<close> calls \<open>toFixed\<close> on it.  The same happens
  for the label \<open>hasOwnProperty\<close>, where \<open>_formatTotals\<close> throws at the call of
  \<open>totals.hasOwnProperty\<close>.
\<close>

theorem C4_inherited_label_render_throws:
  "(let doc = \<lparr>trs = [\<lparr>classList = [],
                cells = [\<lparr>cell_class = ''project'', textContent = ''ADMIN'',
                          span_texts = [''ADMIN'']\<rparr>,
                         \<lparr>cell_class = ''notes'', textContent = ''constructor: x'',
                          span_texts = []\<rparr>,
                         \<lparr>cell_class = ''hours'', textContent = ''1.5'', span_texts = []\<rparr>]\<rparr>],
               page = [\<lparr>tag = ''div'', elem_id = ''TSEntryInline'', innerHTML = []\<rparr>]\<rparr>
    in Xpath_findAll ADMIN_ROWS doc = new_QueryResult [0]
       \<and> getElementById TARGET_OUTPUT doc = Some 0
       \<and> Summarize_totals (new_QueryResult [0]) doc = Inr [(''constructor'', Text)]
       \<and> Summarize_shouldRender [(''constructor'', Text)]
       \<and> Summarize_render [(''constructor'', Text)] doc = Inl TypeError
       \<and> Summarize_render [(''hasOwnProperty'', Text)] doc = Inl TypeError
       \<and> AdminHelper_init [Highlight, Summarize] doc = Inl TypeError)"
  by (simp add: program_eval to_number_examples)

text \<open>
  C5: on a page with one ADMIN row whose note is \<open>constructor: x\<close> and whose hours
  text is \<open>abc\<close>, the hours convert to \<open>NaN\<close>, but the total of the label is not
  \<open>NaN\<close>.  The totals object inherits a property of that name, so the test against
  \<open>undefined\<close> fails, the total is not set to \<open>0\<close>, and \<open>+=\<close> makes a string of the
  inherited function and the hours.  The run then ends with a TypeError.
\<close>

theorem C5_inherited_label_not_NaN:
  "(let doc = \<lparr>trs = [\<lparr>classList = [],
                cells = [\<lparr>cell_class = ''project'', textContent = ''ADMIN'',
                          span_texts = [''ADMIN'']\<rparr>,
                         \<lparr>cell_class = ''notes'', textContent = ''constructor: x'',
                          span_texts = []\<rparr>,
                         \<lparr>cell_class = ''hours'', textContent = ''abc'', span_texts = []\<rparr>]\<rparr>],
               page = [\<lparr>tag = ''div'', elem_id = ''TSEntryInline'', innerHTML = []\<rparr>]\<rparr>
    in match_label ''constructor: x'' = Some ''constructor''
       \<and> to_number ''abc'' = NaN
       \<and> get_property [] ''constructor'' = Builtin
       \<and> Summarize_row doc 0 [] = Inr [(''constructor'', Text)]
       \<and> Summarize_totals (Xpath_findAll ADMIN_ROWS doc) doc = Inr [(''constructor'', Text)]
       \<and> get_property [(''constructor'', Text)] ''constructor'' = Own Text
       \<and> AdminHelper_init [Highlight, Summarize] doc = Inl TypeError)"
  by (simp add: program_eval to_number_examples)

subsection \<open>AdminHelper\<close>

lemma hooks_forEach_append:
  "hooks_forEach (hs1 @ hs2) rows doc =
     (case hooks_forEach hs1 rows doc of
        Inl e \<Rightarrow> Inl e
      | Inr doc1 \<Rightarrow> hooks_forEach hs2 rows doc1)"
  by (induction hs1 arbitrary: doc) (auto split: option.splits sum.splits)

lemma hooks_forEach_filter:
  "hooks_forEach (filter (\<lambda>h. run h \<noteq> None) hooks) rows doc = hooks_forEach hooks rows doc"
  by (induction hooks arbitrary: doc) (auto split: option.splits sum.splits)

lemma highlight_items:
  "\<forall>r\<in>set xs. r < length (trs doc) \<Longrightarrow>
     \<exists>doc1. run_items Highlight_row xs doc = Inr doc1
       \<and> length (trs doc1) = length (trs doc)
       \<and> page doc1 = page doc
       \<and> (\<forall>r<length (trs doc). cells (trs doc1 ! r) = cells (trs doc ! r)
             \<and> set (classList (trs doc ! r)) \<subseteq> set (classList (trs doc1 ! r)))
       \<and> (\<forall>r\<in>set xs. HIGHLIGHT_CLASS \<in> set (classList (trs doc1 ! r)))"
proof (induction xs arbitrary: doc)
  case Nil
  then show ?case by simp
next
  case (Cons x xs)
  define d where "d = doc\<lparr>trs := (trs doc)
                 [x := (trs doc ! x)
                    \<lparr>classList := classList_add HIGHLIGHT_CLASS (classList (trs doc ! x))\<rparr>]\<rparr>"
  have step: "Highlight_row x doc = Inr d" by (simp add: Highlight_row_def d_def)
  have len: "length (trs d) = length (trs doc)" by (simp add: d_def)
  have x: "x < length (trs doc)" using Cons.prems by simp
  have keep: "cells (trs d ! r) = cells (trs doc ! r)
              \<and> set (classList (trs doc ! r)) \<subseteq> set (classList (trs d ! r))"
    if "r < length (trs doc)" for r
    using that by (cases "r = x") (auto simp: d_def classList_add_def)
  have hx: "HIGHLIGHT_CLASS \<in> set (classList (trs d ! x))"
    using x by (simp add: d_def classList_add_def)
  have "\<forall>r\<in>set xs. r < length (trs d)" using Cons.prems len by simp
  from Cons.IH[OF this] obtain doc1 where d1:
    "run_items Highlight_row xs d = Inr doc1"
    "length (trs doc1) = length (trs d)"
    "page doc1 = page d"
    "\<forall>r<length (trs d). cells (trs doc1 ! r) = cells (trs d ! r)
             \<and> set (classList (trs d ! r)) \<subseteq> set (classList (trs doc1 ! r))"
    "\<forall>r\<in>set xs. HIGHLIGHT_CLASS \<in> set (classList (trs doc1 ! r))"
    by blast
  have "run_items Highlight_row (x # xs) doc = Inr doc1" using step d1(1) by simp
  moreover have "length (trs doc1) = length (trs doc)" using d1(2) len by simp
  moreover have "page doc1 = page doc" using d1(3) by (simp add: d_def)
  moreover have "\<forall>r<length (trs doc). cells (trs doc1 ! r) = cells (trs doc ! r)
             \<and> set (classList (trs doc ! r)) \<subseteq> set (classList (trs doc1 ! r))"
    using d1(4) keep len by fastforce
  moreover have "\<forall>r\<in>set (x # xs). HIGHLIGHT_CLASS \<in> set (classList (trs doc1 ! r))"
    using d1(4,5) hx x len by auto
  ultimately show ?case by blast
qed

lemma findAll_in_range:
  "\<forall>r\<in>set (result (Xpath_findAll path doc)). r < length (trs doc)"
  by (simp add: Xpath_findAll_def new_QueryResult_def)

lemma Highlight_run_marks:
  "\<exists>doc1. Highlight_run (Xpath_findAll path doc) doc = Inr doc1
     \<and> page doc1 = page doc
     \<and> (\<forall>r\<in>set (result (Xpath_findAll path doc)).
           HIGHLIGHT_CLASS \<in> set (classList (trs doc1 ! r)))"
proof -
  from highlight_items[OF findAll_in_range, of path doc] obtain doc1 where
    "run_items Highlight_row (result (Xpath_findAll path doc)) doc = Inr doc1"
    "page doc1 = page doc"
    "\<forall>r\<in>set (result (Xpath_findAll path doc)). HIGHLIGHT_CLASS \<in> set (classList (trs doc1 ! r))"
    by blast
  then show ?thesis
    by (auto simp: Highlight_run_def forEach_run_items)
qed

text \<open>
  C6: the row query is evaluated once, on the document as it is at the start.  Hooks
  without a \<open>run\<close> function are skipped; the others are run in the given order, each on
  the same QueryResult and on the document as the hooks before it left it.  With the
  highlighter first, the next hook finds the highlight class on every row of the
  QueryResult.
\<close>

theorem C6_hooks_sequential_same_rows:
  "AdminHelper_iterateRows hooks doc
     = AdminHelper_iterateRows (filter (\<lambda>h. run h \<noteq> None) hooks) doc
   \<and> AdminHelper_iterateRows (hs1 @ hs2) doc
     = (case hooks_forEach hs1 (Xpath_findAll ADMIN_ROWS doc) doc of
          Inl e \<Rightarrow> Inl e
        | Inr doc1 \<Rightarrow> hooks_forEach hs2 (Xpath_findAll ADMIN_ROWS doc) doc1)
   \<and> AdminHelper_iterateRows [\<lparr>run = Some f1\<rparr>, \<lparr>run = Some f2\<rparr>] doc
     = (case f1 (Xpath_findAll ADMIN_ROWS doc) doc of
          Inl e \<Rightarrow> Inl e
        | Inr doc1 \<Rightarrow> f2 (Xpath_findAll ADMIN_ROWS doc) doc1)
   \<and> (\<exists>doc1. Highlight_run (Xpath_findAll ADMIN_ROWS doc) doc = Inr doc1
         \<and> (\<forall>r\<in>set (result (Xpath_findAll ADMIN_ROWS doc)).
               HIGHLIGHT_CLASS \<in> set (classList (trs doc1 ! r)))
         \<and> AdminHelper_iterateRows [Highlight, \<lparr>run = Some f2\<rparr>] doc
             = f2 (Xpath_findAll ADMIN_ROWS doc) doc1)"
proof (intro conjI)
  show "AdminHelper_iterateRows hooks doc
     = AdminHelper_iterateRows (filter (\<lambda>h. run h \<noteq> None) hooks) doc"
    unfolding AdminHelper_iterateRows_def by (rule hooks_forEach_filter[symmetric])
  show "AdminHelper_iterateRows (hs1 @ hs2) doc
     = (case hooks_forEach hs1 (Xpath_findAll ADMIN_ROWS doc) doc of
          Inl e \<Rightarrow> Inl e
        | Inr doc1 \<Rightarrow> hooks_forEach hs2 (Xpath_findAll ADMIN_ROWS doc) doc1)"
    by (simp add: AdminHelper_iterateRows_def hooks_forEach_append)
  show "AdminHelper_iterateRows [\<lparr>run = Some f1\<rparr>, \<lparr>run = Some f2\<rparr>] doc
     = (case f1 (Xpath_findAll ADMIN_ROWS doc) doc of
          Inl e \<Rightarrow> Inl e
        | Inr doc1 \<Rightarrow> f2 (Xpath_findAll ADMIN_ROWS doc) doc1)"
    by (auto simp: AdminHelper_iterateRows_def split: sum.splits)
  from Highlight_run_marks[of ADMIN_ROWS doc] obtain doc1 where d:
    "Highlight_run (Xpath_findAll ADMIN_ROWS doc) doc = Inr doc1"
    "\<forall>r\<in>set (result (Xpath_findAll ADMIN_ROWS doc)).
        HIGHLIGHT_CLASS \<in> set (classList (trs doc1 ! r))"
    by blast
  have "AdminHelper_iterateRows [Highlight, \<lparr>run = Some f2\<rparr>] doc
          = f2 (Xpath_findAll ADMIN_ROWS doc) doc1"
    using d(1) by (auto simp: AdminHelper_iterateRows_def Highlight_def split: sum.splits)
  with d show "\<exists>doc1. Highlight_run (Xpath_findAll ADMIN_ROWS doc) doc = Inr doc1
         \<and> (\<forall>r\<in>set (result (Xpath_findAll ADMIN_ROWS doc)).
               HIGHLIGHT_CLASS \<in> set (classList (trs doc1 ! r)))
         \<and> AdminHelper_iterateRows [Highlight, \<lparr>run = Some f2\<rparr>] doc
             = f2 (Xpath_findAll ADMIN_ROWS doc) doc1"
    by blast
qed

theorem C6_hooks_sequential_same_rows_witness:
  "AdminHelper_iterateRows [Highlight, \<lparr>run = None\<rparr>, Summarize]
     \<lparr>trs = [\<lparr>classList = [], cells = []\<rparr>,
              \<lparr>classList = [''odd''],
               cells = [\<lparr>cell_class = ''project'', textContent = ''ADMIN'',
                         span_texts = [''ADMIN'']\<rparr>,
                        \<lparr>cell_class = ''notes'', textContent = ''A: x'', span_texts = []\<rparr>,
                        \<lparr>cell_class = ''hours'', textContent = ''2.25'', span_texts = []\<rparr>]\<rparr>],
      page = [\<lparr>tag = ''div'', elem_id = ''TSEntryInline'', innerHTML = []\<rparr>]\<rparr>
   = Inr
     \<lparr>trs = [\<lparr>classList = [], cells = []\<rparr>,
              \<lparr>classList = [''odd'', ''admin_helper_highlight''],
               cells = [\<lparr>cell_class = ''project'', textContent = ''ADMIN'',
                         span_texts = [''ADMIN'']\<rparr>,
                        \<lparr>cell_class = ''notes'', textContent = ''A: x'', span_texts = []\<rparr>,
                        \<lparr>cell_class = ''hours'', textContent = ''2.25'', span_texts = []\<rparr>]\<rparr>],
      page = [\<lparr>tag = ''div'', elem_id = ''admin_helper'',
               innerHTML = ''<ul><li>A: <span class=\"admin_helper_hours\">2.25</span></ul>''\<rparr>,
              \<lparr>tag = ''div'', elem_id = ''TSEntryInline'', innerHTML = []\<rparr>]\<rparr>
   \<and> Xpath_findAll ADMIN_ROWS
     \<lparr>trs = [\<lparr>classList = [], cells = []\<rparr>,
              \<lparr>classList = [''odd''],
               cells = [\<lparr>cell_class = ''project'', textContent = ''ADMIN'',
                         span_texts = [''ADMIN'']\<rparr>,
                        \<lparr>cell_class = ''notes'', textContent = ''A: x'', span_texts = []\<rparr>,
                        \<lparr>cell_class = ''hours'', textContent = ''2.25'', span_texts = []\<rparr>]\<rparr>],
      page = [\<lparr>tag = ''div'', elem_id = ''TSEntryInline'', innerHTML = []\<rparr>]\<rparr>
   = new_QueryResult [1]"
  using C6_hooks_sequential_same_rows
    [of "[Highlight, \<lparr>run = None\<rparr>, Summarize]"
     "\<lparr>trs = [\<lparr>classList = [], cells = []\<rparr>,
              \<lparr>classList = [''odd''],
               cells = [\<lparr>cell_class = ''project'', textContent = ''ADMIN'',
                         span_texts = [''ADMIN'']\<rparr>,
                        \<lparr>cell_class = ''notes'', textContent = ''A: x'', span_texts = []\<rparr>,
                        \<lparr>cell_class = ''hours'', textContent = ''2.25'', span_texts = []\<rparr>]\<rparr>],
      page = [\<lparr>tag = ''div'', elem_id = ''TSEntryInline'', innerHTML = []\<rparr>]\<rparr>"
     "[]" "[]" "Highlight_run" "Summarize_run"]
  by (simp add: program_eval to_number_examples round64_examples toFixed_examples)

subsection \<open>Template: keys and values read as patterns\<close>

text \<open>
  C2: rendering \<open>{a}\<close> with escaping and the data \<open>a = &\<close>,
  \<open>x}|amp;|{x = Y\<close> returns \<open>&Y\<close>.  The value of \<open>a\<close> is escaped to \<open>&amp;\<close>;
  the second key is read as a pattern with the three alternatives \<open>{x}\<close>, \<open>amp;\<close>
  and \<open>{x}\<close>, so its pass replaces the \<open>amp;\<close> of the character reference.  The
  ampersand of the result comes from the value of \<open>a\<close> and starts no character
  reference.
\<close>

theorem C2_pattern_key_leaves_ampersand:
  "Template_render ''{a}'' [(''a'', ''&''), (''x}|amp;|{x'', ''Y'')] False = Inr ''&Y''
   \<and> Template_escape ''&'' = ''&amp;''
   \<and> js_replace (placeholder ''a'') (Template_escape ''&'') ''{a}'' = Inr ''&amp;''
   \<and> js_replace (placeholder ''x}|amp;|{x'') (Template_escape ''Y'') ''&amp;'' = Inr ''&Y''
   \<and> \<not> list_ex (\<lambda>e. prefix e ''Y'') entity_tails"
  by (simp add: render_eval entity_tails_def)

text \<open>
  C8: render does not replace every occurrence of each key's placeholder, and it can
  throw.  With the key \<open>a+b\<close> the placeholder \<open>{a+b}\<close> stays and the text \<open>{aab}\<close>
  is replaced, because the key is read as a pattern.  With the array \<open>['X', 'Y']\<close> as
  data, whose keys are \<open>0\<close> and \<open>1\<close>, and with the key \<open>(\<close>, the expression is not
  well formed and a SyntaxError is thrown.  With the value \<open>$&\<close> every placeholder
  \<open>{a}\<close> stays, because the value is read as a replacement pattern.  With the key
  \<open>hasOwnProperty\<close> a TypeError is thrown at \<open>data.hasOwnProperty(key)\<close>.
\<close>

theorem C8_placeholder_not_replaced:
  "Template_render ''{a+b} {aab}'' [(''a+b'', ''X'')] True = Inr ''{a+b} X''
   \<and> Template_render ''{0} {1}'' [(''0'', ''X''), (''1'', ''Y'')] True = Inl SyntaxError
   \<and> Template_render ''{a} {a}'' [(''a'', ''$&'')] True = Inr ''{a} {a}''
   \<and> Template_render ''{hasOwnProperty}'' [(''hasOwnProperty'', ''X'')] True = Inl TypeError
   \<and> Template_render ''{a} {b}'' [(''('', ''X'')] True = Inl SyntaxError"
  by (simp add: render_eval)

subsection \<open>Summarize: the markup\<close>

text \<open>
  C10: on a page with the anchor and one ADMIN row whose note is \<open>$`: x\<close> and whose
  hours are \<open>1\<close>, the one label \<open>$`\<close> gives a markup with two opening tags
  \<open><li>\<close>.  The escaped label is passed to \<open>replace\<close> as the replacement string,
  where \<open>$`\<close> stands for the text before the placeholder, which is \<open><li>\<close>.
\<close>

theorem C10_dollar_label_adds_item:
  "(let doc = \<lparr>trs = [\<lparr>classList = [],
                cells = [\<lparr>cell_class = ''project'', textContent = ''ADMIN'',
                          span_texts = [''ADMIN'']\<rparr>,
                         \<lparr>cell_class = ''notes'', textContent = ''$`: x'', span_texts = []\<rparr>,
                         \<lparr>cell_class = ''hours'', textContent = ''1'', span_texts = []\<rparr>]\<rparr>],
               page = [\<lparr>tag = ''div'', elem_id = ''TSEntryInline'', innerHTML = []\<rparr>]\<rparr>
    in match_label ''$`: x'' = Some ''$`''
       \<and> Summarize_totals (Xpath_findAll ADMIN_ROWS doc) doc = Inr [(''$`'', Num (Fin 1))]
       \<and> Summarize_formatTotals [(''$`'', Num (Fin 1))] None = Inr [(''$`'', ''1.00'')]
       \<and> summary_markup [(''$`'', ''1.00'')]
           = Inr ''<ul><li><li>: <span class=\"admin_helper_hours\">1.00</span></ul>''
       \<and> count_occurrences ''<li>''
             ''<ul><li><li>: <span class=\"admin_helper_hours\">1.00</span></ul>'' = 2
       \<and> length [(''$`'', ''1.00'')] = 1
       \<and> AdminHelper_init [Highlight, Summarize] doc
           = Inr \<lparr>trs = [\<lparr>classList = [''admin_helper_highlight''],
                cells = [\<lparr>cell_class = ''project'', textContent = ''ADMIN'',
                          span_texts = [''ADMIN'']\<rparr>,
                         \<lparr>cell_class = ''notes'', textContent = ''$`: x'', span_texts = []\<rparr>,
                         \<lparr>cell_class = ''hours'', textContent = ''1'', span_texts = []\<rparr>]\<rparr>],
               page = [\<lparr>tag = ''div'', elem_id = ''admin_helper'',
                        innerHTML = ''<ul><li><li>: <span class=\"admin_helper_hours\">1.00</span></ul>''\<rparr>,
                       \<lparr>tag = ''div'', elem_id = ''TSEntryInline'', innerHTML = []\<rparr>]\<rparr>)"
  by (simp add: program_eval to_number_examples round64_examples toFixed_examples)

subsection \<open>Literal keys: the passes of render\<close>

lemma literal_key_brace_free: "literal_key k \<Longrightarrow> brace_free k"
  by (auto simp: literal_key_def brace_free_def list_all_iff)

lemma prefix_barrier: "prefix p (u @ c # v) \<Longrightarrow> c \<notin> set p \<Longrightarrow> prefix p u"
proof (induction p arbitrary: u)
  case Nil
  then show ?case by simp
next
  case (Cons a p)
  show ?case
  proof (cases u)
    case Nil
    with Cons.prems show ?thesis by simp
  next
    case (Cons x u')
    with Cons.prems have "a = x" "prefix p (u' @ c # v)" "c \<notin> set p" by simp_all
    with Cons.IH[of u'] Cons show ?thesis by simp
  qed
qed

lemma prefix_barrier_tl:
  "prefix p (u @ c # v) \<Longrightarrow> u \<noteq> [] \<Longrightarrow> c \<notin> set (tl p) \<Longrightarrow> prefix p u"
  by (cases p; cases u) (auto dest: prefix_barrier)

lemma expand_no_dollar: "CHR ''$'' \<notin> set r \<Longrightarrow> expand pre m post r = r"
  by (induction pre m post r rule: expand.induct) auto

lemma replace_from_match:
  "pat \<noteq> [] \<Longrightarrow>
     replace_from pat r pre (pat @ rest)
       = expand pre pat rest r @ replace_from pat r (pre @ pat) rest"
  by (cases pat) simp_all

lemma replace_from_skip:
  "\<not> prefix pat (c # cs) \<Longrightarrow>
     replace_from pat r pre (c # cs) = c # replace_from pat r (pre @ [c]) cs"
  by simp

declare replace_from.simps(2) [simp del]

lemma replace_from_no_match: "\<not> sublist pat p \<Longrightarrow> replace_from pat r pre p = p"
proof (induction p arbitrary: pre)
  case Nil
  then show ?case by simp
next
  case (Cons c cs)
  then have "\<not> prefix pat (c # cs)" "\<not> sublist pat cs"
    by (auto simp: sublist_Cons_right)
  with Cons.IH show ?case by (simp add: replace_from_skip)
qed

lemma replace_from_piece:
  assumes "\<not> sublist (CHR ''{'' # k) p" "CHR ''{'' \<notin> set k"
  shows "replace_from (CHR ''{'' # k) r pre (p @ (CHR ''{'' # k) @ rest)
           = p @ expand (pre @ p) (CHR ''{'' # k) rest r
               @ replace_from (CHR ''{'' # k) r (pre @ p @ (CHR ''{'' # k)) rest"
  using assms(1)
proof (induction p arbitrary: pre)
  case Nil
  show ?case using replace_from_match[of "CHR ''{'' # k" r pre rest] by simp
next
  case (Cons c cs)
  have np: "\<not> prefix (CHR ''{'' # k) (c # cs)" "\<not> sublist (CHR ''{'' # k) cs"
    using Cons.prems by (auto simp: sublist_Cons_right)
  have "\<not> prefix (CHR ''{'' # k) (c # (cs @ (CHR ''{'' # k) @ rest))"
    using prefix_barrier_tl[of "CHR ''{'' # k" "c # cs" "CHR ''{''" "k @ rest"] np(1) assms(2)
    by auto
  then have "replace_from (CHR ''{'' # k) r pre (c # (cs @ (CHR ''{'' # k) @ rest))
        = c # replace_from (CHR ''{'' # k) r (pre @ [c]) (cs @ (CHR ''{'' # k) @ rest)"
    by (rule replace_from_skip)
  with Cons.IH[OF np(2), of "pre @ [c]"] show ?case by simp
qed

lemma replace_from_pieces:
  assumes "CHR ''{'' \<notin> set k"
  shows "ps \<noteq> [] \<Longrightarrow> \<forall>p\<in>set ps. \<not> sublist (CHR ''{'' # k) p \<Longrightarrow>
     \<exists>es. length es = length ps - 1
       \<and> replace_from (CHR ''{'' # k) r pre (join (CHR ''{'' # k) ps) = weave ps es
       \<and> (\<forall>e\<in>set es. \<exists>pre' post. e = expand pre' (CHR ''{'' # k) post r)"
proof (induction ps arbitrary: pre)
  case Nil
  then show ?case by simp
next
  case (Cons p ps)
  let ?pat = "CHR ''{'' # k"
  from Cons.prems have p: "\<not> sublist ?pat p" by simp
  show ?case
  proof (cases ps)
    case Nil
    have "replace_from ?pat r pre (join ?pat [p]) = weave [p] []"
      using p by (simp add: replace_from_no_match)
    then show ?thesis using Nil by auto
  next
    case (Cons q qs)
    from Cons.prems \<open>ps = q # qs\<close> have rest: "\<forall>p\<in>set ps. \<not> sublist ?pat p" "ps \<noteq> []"
      by auto
    from Cons.IH[OF rest(2) rest(1), of "pre @ p @ ?pat"] obtain es where es:
      "length es = length ps - 1"
      "replace_from ?pat r (pre @ p @ ?pat) (join ?pat ps) = weave ps es"
      "\<forall>e\<in>set es. \<exists>pre' post. e = expand pre' ?pat post r"
      by blast
    let ?e = "expand (pre @ p) ?pat (join ?pat ps) r"
    have "replace_from ?pat r pre (join ?pat (p # ps)) = weave (p # ps) (?e # es)"
      using replace_from_piece[OF p assms, of r pre "join ?pat ps"] es(2) \<open>ps = q # qs\<close>
      by simp
    moreover have "length (?e # es) = length (p # ps) - 1"
      using es(1) \<open>ps = q # qs\<close> by simp
    moreover have "\<forall>e\<in>set (?e # es). \<exists>pre' post. e = expand pre' ?pat post r"
      using es(3) by auto
    ultimately show ?thesis by blast
  qed
qed

lemma weave_same:
  "length es = length ps - 1 \<Longrightarrow> \<forall>e\<in>set es. e = r \<Longrightarrow> weave ps es = join r ps"
proof (induction ps arbitrary: es)
  case Nil
  then show ?case by simp
next
  case (Cons p ps)
  show ?case
  proof (cases ps)
    case Nil
    then show ?thesis by simp
  next
    case (Cons q qs)
    with Cons.prems obtain e es' where e: "es = e # es'" by (cases es) auto
    with Cons.prems Cons.IH[of es'] \<open>ps = q # qs\<close> show ?thesis by simp
  qed
qed

lemma render_append:
  "render_literal template (d1 @ d2) raw
     = render_literal (render_literal template d1 raw) d2 raw"
  by (induction d1 arbitrary: template) auto

lemma replace_from_plain:
  "CHR ''{'' \<notin> set u \<Longrightarrow>
     replace_from (CHR ''{'' # k) r pre (u @ s) = u @ replace_from (CHR ''{'' # k) r (pre @ u) s"
proof (induction u arbitrary: pre)
  case Nil
  then show ?case by simp
next
  case (Cons c u)
  then have "\<not> prefix (CHR ''{'' # k) (c # (u @ s))" by auto
  then have "replace_from (CHR ''{'' # k) r pre (c # (u @ s))
               = c # replace_from (CHR ''{'' # k) r (pre @ [c]) (u @ s)"
    by (rule replace_from_skip)
  with Cons.IH[of "pre @ [c]"] Cons.prems show ?case by simp
qed

lemma closing_brace_key:
  "prefix (k @ ''}'') (x @ CHR ''}'' # b) \<Longrightarrow> CHR ''}'' \<notin> set k \<Longrightarrow> CHR ''}'' \<notin> set x
     \<Longrightarrow> k = x"
proof (induction k arbitrary: x)
  case Nil
  then show ?case by (cases x) auto
next
  case (Cons a k)
  then show ?case by (cases x) auto
qed

lemma other_placeholder_no_match:
  assumes "brace_free k" "brace_free x" "k \<noteq> x"
  shows "\<not> prefix (placeholder k) (placeholder x @ b)"
  using assms closing_brace_key[of k x b]
  by (auto simp: placeholder_def brace_free_def)

lemma replace_from_other_placeholder:
  assumes "brace_free k" "brace_free x" "k \<noteq> x"
  shows "replace_from (placeholder k) r pre (placeholder x @ b)
           = placeholder x @ replace_from (placeholder k) r (pre @ placeholder x) b"
proof -
  have "\<not> prefix (placeholder k) (CHR ''{'' # ((x @ ''}'') @ b))"
    using other_placeholder_no_match[OF assms, of b] by (simp add: placeholder_def)
  then have "replace_from (placeholder k) r pre (CHR ''{'' # ((x @ ''}'') @ b))
        = CHR ''{'' # replace_from (placeholder k) r (pre @ ''{'') ((x @ ''}'') @ b)"
    by (rule replace_from_skip)
  moreover have "replace_from (placeholder k) r (pre @ ''{'') ((x @ ''}'') @ b)
        = (x @ ''}'') @ replace_from (placeholder k) r ((pre @ ''{'') @ (x @ ''}'')) b"
    unfolding placeholder_def
    using assms(2) by (intro replace_from_plain) (simp add: brace_free_def)
  ultimately show ?thesis by (simp add: placeholder_def)
qed

lemma placeholder_prefix_within:
  assumes "brace_free k" "a \<noteq> []" "prefix (placeholder k) (a @ placeholder x @ b)"
  shows "prefix (placeholder k) a"
  using prefix_barrier_tl[of "placeholder k" a "CHR ''{''" "x @ ''}'' @ b"] assms
  by (simp add: placeholder_def brace_free_def)

lemma replace_from_keeps_placeholder:
  assumes "brace_free k" "brace_free x" "k \<noteq> x"
  shows "\<exists>a' b'. replace_from (placeholder k) r pre (a @ placeholder x @ b)
                   = a' @ placeholder x @ b'"
proof (induction a arbitrary: pre rule: length_induct)
  case (1 a)
  show ?case
  proof (cases a)
    case Nil
    then show ?thesis
      using replace_from_other_placeholder[OF assms, of r pre b] by (metis append_Nil)
  next
    case (Cons c cs)
    show ?thesis
    proof (cases "prefix (placeholder k) (a @ placeholder x @ b)")
      case True
      with placeholder_prefix_within[OF assms(1), of a x b] Cons
      obtain a2 where a2: "a = placeholder k @ a2" by (auto elim: prefixE)
      then have "length a2 < length a" by (simp add: placeholder_def)
      with 1 obtain a' b' where
        "replace_from (placeholder k) r (pre @ placeholder k) (a2 @ placeholder x @ b)
           = a' @ placeholder x @ b'" by blast
      moreover have "replace_from (placeholder k) r pre (a @ placeholder x @ b)
           = expand pre (placeholder k) (a2 @ placeholder x @ b) r
             @ replace_from (placeholder k) r (pre @ placeholder k) (a2 @ placeholder x @ b)"
        using replace_from_match[of "placeholder k" r pre "a2 @ placeholder x @ b"] a2
        by (simp add: placeholder_def)
      ultimately show ?thesis by (metis append.assoc)
    next
      case False
      then have "replace_from (placeholder k) r pre (c # (cs @ placeholder x @ b))
           = c # replace_from (placeholder k) r (pre @ [c]) (cs @ placeholder x @ b)"
        using Cons by (intro replace_from_skip) simp
      moreover from 1 Cons obtain a' b' where
        "replace_from (placeholder k) r (pre @ [c]) (cs @ placeholder x @ b)
           = a' @ placeholder x @ b'" by force
      ultimately show ?thesis using Cons by (metis append_Cons)
    qed
  qed
qed

lemma render_keeps_placeholder:
  assumes "brace_free x"
  shows "list_all (\<lambda>kv. literal_key (fst kv)) data \<Longrightarrow> x \<notin> fst ` set data \<Longrightarrow>
     \<exists>a' b'. render_literal (a @ placeholder x @ b) data raw = a' @ placeholder x @ b'"
proof (induction data arbitrary: a b)
  case Nil
  then show ?case by auto
next
  case (Cons kv data)
  obtain k v where kv: "kv = (k, v)" by (cases kv)
  with Cons.prems have k: "brace_free k" "k \<noteq> x"
    by (auto simp: literal_key_brace_free)
  from replace_from_keeps_placeholder[OF k(1) assms k(2)] obtain a1 b1 where
    "replace_all (placeholder k) (if raw then v else Template_escape v) (a @ placeholder x @ b)
       = a1 @ placeholder x @ b1"
    unfolding replace_all_def by blast
  moreover from Cons.IH[of a1 b1] Cons.prems obtain a' b' where
    "render_literal (a1 @ placeholder x @ b1) data raw = a' @ placeholder x @ b'"
    by auto
  ultimately show ?case using kv by auto
qed

lemma replace_from_pre_irrelevant:
  "CHR ''$'' \<notin> set r \<Longrightarrow> replace_from pat r pre s = replace_from pat r pre' s"
proof (induction pat r pre s arbitrary: pre' rule: replace_from.induct)
  case (1 pat repl pre)
  then show ?case by simp
next
  case (2 pat repl pre c cs)
  show ?case
  proof (cases "pat \<noteq> [] \<and> prefix pat (c # cs)")
    case True
    with 2(1)[OF True 2(3), of "pre' @ pat"] 2(3) show ?thesis
      by (simp add: replace_from.simps(2) expand_no_dollar)
  next
    case False
    with 2(2)[OF False 2(3), of "pre' @ [c]"] show ?thesis
      by (cases "pat = []") (simp_all add: replace_from.simps(2))
  qed
qed

lemma replace_all_across_placeholder:
  assumes "brace_free k" "brace_free x" "k \<noteq> x" "CHR ''$'' \<notin> set r"
  shows "replace_all (placeholder k) r (a @ placeholder x @ b)
           = replace_all (placeholder k) r a @ placeholder x @ replace_all (placeholder k) r b"
proof (induction a rule: length_induct)
  case (1 a)
  note pre = replace_from_pre_irrelevant[OF assms(4)]
  show ?case
  proof (cases a)
    case Nil
    then show ?thesis
      using replace_from_other_placeholder[OF assms(1-3), of r "[]" b]
        pre[of "placeholder k" "[] @ placeholder x" b "[]"]
      by (simp add: replace_all_def)
  next
    case (Cons c cs)
    show ?thesis
    proof (cases "prefix (placeholder k) (a @ placeholder x @ b)")
      case True
      with placeholder_prefix_within[OF assms(1), of a x b] Cons
      obtain a2 where a2: "a = placeholder k @ a2" by (auto elim: prefixE)
      then have "length a2 < length a" by (simp add: placeholder_def)
      with 1 have ih: "replace_all (placeholder k) r (a2 @ placeholder x @ b)
           = replace_all (placeholder k) r a2 @ placeholder x @ replace_all (placeholder k) r b"
        by blast
      have "replace_all (placeholder k) r (a @ placeholder x @ b)
           = r @ replace_all (placeholder k) r (a2 @ placeholder x @ b)"
        using replace_from_match[of "placeholder k" r "[]" "a2 @ placeholder x @ b"] a2
          pre[of "placeholder k" "[] @ placeholder k" "a2 @ placeholder x @ b" "[]"]
        by (simp add: placeholder_def replace_all_def expand_no_dollar[OF assms(4)])
      moreover have "replace_all (placeholder k) r a = r @ replace_all (placeholder k) r a2"
        using replace_from_match[of "placeholder k" r "[]" a2] a2
          pre[of "placeholder k" "[] @ placeholder k" a2 "[]"]
        by (simp add: placeholder_def replace_all_def expand_no_dollar[OF assms(4)])
      ultimately show ?thesis using ih by simp
    next
      case False
      then have np: "\<not> prefix (placeholder k) (c # cs)"
        using Cons prefix_prefix[of "placeholder k" "c # cs" "placeholder x @ b"] by auto
      have "replace_all (placeholder k) r (c # (cs @ placeholder x @ b))
           = c # replace_all (placeholder k) r (cs @ placeholder x @ b)"
        using False Cons replace_from_skip[of "placeholder k" c "cs @ placeholder x @ b" r "[]"]
          pre[of "placeholder k" "[] @ [c]" "cs @ placeholder x @ b" "[]"]
        by (simp add: replace_all_def)
      moreover have "replace_all (placeholder k) r (c # cs) = c # replace_all (placeholder k) r cs"
        using np replace_from_skip[of "placeholder k" c cs r "[]"]
          pre[of "placeholder k" "[] @ [c]" cs "[]"]
        by (simp add: replace_all_def)
      moreover from 1 Cons have "replace_all (placeholder k) r (cs @ placeholder x @ b)
           = replace_all (placeholder k) r cs @ placeholder x @ replace_all (placeholder k) r b"
        by simp
      ultimately show ?thesis using Cons by simp
    qed
  qed
qed

lemma replace_from_char:
  "CHR ''$'' \<notin> set r \<Longrightarrow>
     replace_from [p] r pre s = concat (map (\<lambda>c. if c = p then r else [c]) s)"
proof (induction s arbitrary: pre)
  case Nil
  then show ?case by simp
next
  case (Cons c s)
  then show ?case
    by (auto simp: replace_from.simps(2) expand_no_dollar)
qed

lemma escape_concat: "Template_escape s = concat (map escape_char s)"
proof -
  have "replace_all [p] r t = concat (map (\<lambda>c. if c = p then r else [c]) t)"
    if "CHR ''$'' \<notin> set r" for p r t
    using that by (simp add: replace_all_def replace_from_char)
  then have unf: "Template_escape s =
     concat (map (\<lambda>c. if c = CHR ''/'' then ''&#x2F;'' else [c])
       (concat (map (\<lambda>c. if c = CHR ''>'' then ''&gt;'' else [c])
         (concat (map (\<lambda>c. if c = CHR ''<'' then ''&lt;'' else [c])
           (concat (map (\<lambda>c. if c = CHR 0x27 then ''&#39;'' else [c])
             (concat (map (\<lambda>c. if c = CHR 0x22 then ''&quot;'' else [c])
               (concat (map (\<lambda>c. if c = CHR ''&'' then ''&amp;'' else [c]) s)))))))))))"
    by (simp add: Template_escape_def)
  show ?thesis
    unfolding unf by (induction s) (simp_all add: escape_char_def)
qed

lemma escape_no_dollar: "CHR ''$'' \<notin> set v \<Longrightarrow> CHR ''$'' \<notin> set (Template_escape v)"
  by (auto simp: escape_concat escape_char_def split: if_splits)

lemma join_Cons_piece: "join sep ((c # p) # ps) = c # join sep (p # ps)"
  by (cases ps) simp_all

lemma join_head_match: "join sep ([] # p # ps) = sep @ join sep (p # ps)"
  by simp

lemma pieces_exist:
  assumes "pat \<noteq> []"
  shows "\<exists>ps. ps \<noteq> [] \<and> t = join pat ps \<and> (\<forall>p\<in>set ps. \<not> sublist pat p)"
proof (induction t)
  case Nil
  have "[] = join pat [[]]" by simp
  moreover have "\<forall>p\<in>set [[]]. \<not> sublist pat p" using assms by simp
  ultimately show ?case by blast
next
  case (Cons c t)
  then obtain p ps where ps: "t = join pat (p # ps)" "\<forall>q\<in>set (p # ps). \<not> sublist pat q"
    by (metis list.exhaust)
  show ?case
  proof (cases "prefix pat (c # p)")
    case False
    with ps(2) have "\<forall>q\<in>set ((c # p) # ps). \<not> sublist pat q"
      by (auto simp: sublist_Cons_right)
    moreover have "c # t = join pat ((c # p) # ps)" using ps(1) by (simp add: join_Cons_piece)
    ultimately show ?thesis by blast
  next
    case True
    then obtain p2 where p2: "c # p = pat @ p2" by (auto elim: prefixE)
    with assms have "suffix p2 p"
      by (cases pat) (auto simp: suffix_def)
    with ps(2) have "\<not> sublist pat p2"
      by (meson list.set_intros(1) sublist_order.order.trans suffix_imp_sublist)
    with ps(2) assms have "\<forall>q\<in>set ([] # p2 # ps). \<not> sublist pat q" by auto
    moreover have "c # t = join pat ([] # p2 # ps)"
    proof -
      have "c # t = (c # p) @ drop (length p) t \<and> t = p @ drop (length p) t"
        using ps(1) by (cases ps) auto
      moreover have "join pat (p2 # ps) = p2 @ drop (length p) t"
        using ps(1) by (cases ps) auto
      ultimately show ?thesis using p2 by (simp del: join.simps add: join_head_match)
    qed
    ultimately show ?thesis by blast
  qed
qed

text \<open>
  With literal keys, substitution is one pass per key over the current text, and the pass
  of a key replaces every occurrence of its placeholder: every template is made of pieces
  without the placeholder, joined by the placeholder, and in the result every piece stays
  and every gap holds an expansion of the value, which is the value itself (escaped
  unless raw) when the value has no dollar sign.  A placeholder whose key is not in the
  data stays in the output, and when no value has a dollar sign the text before it and
  the text after it are rendered on their own.
\<close>

lemma render_literal_passes:
  assumes "literal_key key"
    and "list_all (\<lambda>kv. literal_key (fst kv)) data"
    and "literal_key x"
    and "x \<notin> fst ` set data"
    and "ps \<noteq> []"
    and "\<forall>p\<in>set ps. \<not> sublist (placeholder key) p"
  shows "render_literal template (data @ [(key, v)]) raw
           = render_literal (render_literal template data raw) [(key, v)] raw
         \<and> (\<exists>qs es. qs \<noteq> [] \<and> template = join (placeholder key) qs
               \<and> (\<forall>q\<in>set qs. \<not> sublist (placeholder key) q)
               \<and> length es = length qs - 1
               \<and> render_literal template [(key, v)] raw = weave qs es
               \<and> (\<forall>e\<in>set es. \<exists>pre post.
                     e = expand pre (placeholder key) post
                           (if raw then v else Template_escape v)))
         \<and> (\<exists>es. length es = length ps - 1
               \<and> render_literal (join (placeholder key) ps) [(key, v)] raw = weave ps es
               \<and> (\<forall>e\<in>set es. \<exists>pre post.
                     e = expand pre (placeholder key) post
                           (if raw then v else Template_escape v)))
         \<and> (CHR ''$'' \<notin> set v \<longrightarrow>
               render_literal (join (placeholder key) ps) [(key, v)] raw
                 = join (if raw then v else Template_escape v) ps)
         \<and> (\<exists>a' b'. render_literal (a @ placeholder x @ b) data raw = a' @ placeholder x @ b')
         \<and> ((\<forall>kv\<in>set data. CHR ''$'' \<notin> set (snd kv)) \<longrightarrow>
               render_literal (a @ placeholder x @ b) data raw
                 = render_literal a data raw @ placeholder x @ render_literal b data raw)"
proof (intro conjI impI)
  let ?r = "if raw then v else Template_escape v"
  have k: "CHR ''{'' \<notin> set (key @ ''}'')"
    using literal_key_brace_free[OF assms(1)] by (simp add: brace_free_def)
  from replace_from_pieces[OF k assms(5), of ?r "[]"] assms(6)
  obtain es where es: "length es = length ps - 1"
    "replace_all (placeholder key) ?r (join (placeholder key) ps) = weave ps es"
    "\<forall>e\<in>set es. \<exists>pre post. e = expand pre (placeholder key) post ?r"
    unfolding replace_all_def placeholder_def by auto
  show "render_literal template (data @ [(key, v)]) raw
           = render_literal (render_literal template data raw) [(key, v)] raw"
    by (rule render_append)
  show "\<exists>qs es. qs \<noteq> [] \<and> template = join (placeholder key) qs
               \<and> (\<forall>q\<in>set qs. \<not> sublist (placeholder key) q)
               \<and> length es = length qs - 1
               \<and> render_literal template [(key, v)] raw = weave qs es
               \<and> (\<forall>e\<in>set es. \<exists>pre post. e = expand pre (placeholder key) post ?r)"
  proof -
    from pieces_exist[of "placeholder key" template] obtain qs where qs:
      "qs \<noteq> []" "template = join (placeholder key) qs"
      "\<forall>q\<in>set qs. \<not> sublist (placeholder key) q"
      by (auto simp: placeholder_def)
    from replace_from_pieces[OF k qs(1), of ?r "[]"] qs(3)
    obtain fs where fs: "length fs = length qs - 1"
      "replace_all (placeholder key) ?r (join (placeholder key) qs) = weave qs fs"
      "\<forall>e\<in>set fs. \<exists>pre post. e = expand pre (placeholder key) post ?r"
      unfolding replace_all_def placeholder_def by auto
    have "render_literal template [(key, v)] raw = weave qs fs"
      using qs(2) fs(2) by simp
    with qs fs(1,3) show ?thesis by blast
  qed
  show "\<exists>es. length es = length ps - 1
               \<and> render_literal (join (placeholder key) ps) [(key, v)] raw = weave ps es
               \<and> (\<forall>e\<in>set es. \<exists>pre post. e = expand pre (placeholder key) post ?r)"
    using es by auto
  show "render_literal (join (placeholder key) ps) [(key, v)] raw = join ?r ps"
    if "CHR ''$'' \<notin> set v"
  proof -
    from that have "CHR ''$'' \<notin> set ?r" by (simp add: escape_no_dollar)
    then have "\<forall>e\<in>set es. e = ?r" using es(3) by (auto simp: expand_no_dollar)
    from weave_same[OF es(1) this] es(2) show ?thesis by simp
  qed
  show "\<exists>a' b'. render_literal (a @ placeholder x @ b) data raw = a' @ placeholder x @ b'"
    using render_keeps_placeholder[OF literal_key_brace_free[OF assms(3)] assms(2) assms(4)]
    by blast
  show "render_literal (a @ placeholder x @ b) data raw
          = render_literal a data raw @ placeholder x @ render_literal b data raw"
    if "\<forall>kv\<in>set data. CHR ''$'' \<notin> set (snd kv)"
    using assms(2,4) that
  proof (induction data arbitrary: a b)
    case Nil
    then show ?case by simp
  next
    case (Cons kv data)
    obtain k w where kv: "kv = (k, w)" by (cases kv)
    with Cons.prems have kx: "brace_free k" "k \<noteq> x" and w: "CHR ''$'' \<notin> set w"
      by (auto simp: literal_key_brace_free)
    from w have "CHR ''$'' \<notin> set (if raw then w else Template_escape w)"
      by (simp add: escape_no_dollar)
    from replace_all_across_placeholder
      [OF kx(1) literal_key_brace_free[OF assms(3)] kx(2) this, of a b]
      Cons.IH Cons.prems kv
    show ?case by simp
  qed
qed

lemma render_literal_passes_example:
  "literal_key ''name'' \<and> literal_key ''title''
   \<and> join (placeholder ''name'') [''<b>'', ''</b> - '', '' {title}'']
       = ''<b>{name}</b> - {name} {title}''
   \<and> render_literal ''<b>{name}</b> - {name} {title}'' [(''name'', ''R&D'')] False
       = ''<b>R&amp;D</b> - R&amp;D {title}''
   \<and> render_literal ''<b>{name}</b> - {name} {title}'' [(''name'', ''R&D'')] True
       = ''<b>R&D</b> - R&D {title}''
   \<and> render_literal (''{a} '' @ placeholder ''title'' @ '' {a}'') [(''a'', ''x'')] True
       = ''x {title} x''"
  using render_literal_passes
      [of "''name''" "[(''a'', ''x'')]" "''title''" "[''<b>'', ''</b> - '', '' {title}'']"
          "''''" "''R&D''" False "''{a} ''" "'' {a}''"]
    render_literal_passes
      [of "''name''" "[(''a'', ''x'')]" "''title''" "[''<b>'', ''</b> - '', '' {title}'']"
          "''''" "''R&D''" True "''{a} ''" "'' {a}''"]
  by (simp add: literal_key_def repetition_count_def is_digit_def placeholder_def
      sublist_Cons_right escape_concat escape_char_def replace_all_def replace_from.simps(2))

subsection \<open>Literal keys: escaped values\<close>

lemma expand_traced_erase:
  "map fst (expand_traced pre m post r) = expand (map fst pre) (map fst m) (map fst post) (map fst r)"
  by (induction pre m post r rule: expand_traced.induct) auto

lemma replace_from_traced_erase:
  "map fst (replace_from_traced pat r pre s)
     = replace_from pat (map fst r) (map fst pre) (map fst s)"
proof (induction pat r pre s rule: replace_from_traced.induct)
  case (1 pat repl pre)
  then show ?case by simp
next
  case (2 pat repl pre c cs)
  show ?case
  proof (cases "pat \<noteq> [] \<and> prefix pat (map fst (c # cs))")
    case True
    then have t: "map fst (take (length pat) (c # cs)) = pat"
      by (metis append_eq_conv_conj prefix_def take_map)
    have d: "drop (length pat) (map fst (c # cs)) = map fst (drop (length pat) (c # cs))"
      by (rule drop_map)
    from True 2(1) t d show ?thesis
      by (simp add: replace_from.simps(2) expand_traced_erase)
  next
    case False
    with 2(2) show ?thesis
      by (cases "pat = []") (simp_all add: replace_from.simps(2))
  qed
qed

lemma map_fst_mark [simp]: "map fst (mark org s) = s"
  by (simp add: mark_def comp_def)

lemma render_traced_erase:
  "map fst (render_traced template data raw) = render_literal (map fst template) data raw"
  by (induction template data raw rule: render_traced.induct)
     (simp_all add: replace_from_traced_erase replace_all_def)

declare replace_from_traced.simps(2) [simp del]

lemma plain_followD:
  assumes "plain_follow fr" "fr c = Some es"
  shows "fst c \<noteq> CHR ''{''" "fst c \<noteq> CHR ''}''" "fst c \<noteq> CHR ''$''"
    and "\<And>e. e \<in> set es \<Longrightarrow> CHR ''{'' \<notin> set e \<and> CHR ''}'' \<notin> set e \<and> CHR ''$'' \<notin> set e"
proof -
  from assms(1) have "case fr c of None \<Rightarrow> True
      | Some es \<Rightarrow> fst c \<notin> {CHR ''{'', CHR ''}'', CHR ''$''}
          \<and> (\<forall>e\<in>set es. CHR ''{'' \<notin> set e \<and> CHR ''}'' \<notin> set e \<and> CHR ''$'' \<notin> set e)"
    unfolding plain_follow_def by (rule spec)
  with assms(2) have *: "fst c \<notin> {CHR ''{'', CHR ''}'', CHR ''$''}
          \<and> (\<forall>e\<in>set es. CHR ''{'' \<notin> set e \<and> CHR ''}'' \<notin> set e \<and> CHR ''$'' \<notin> set e)"
    by simp
  from * show "fst c \<noteq> CHR ''{''" "fst c \<noteq> CHR ''}''" "fst c \<noteq> CHR ''$''" by simp_all
  from * show "\<And>e. e \<in> set es \<Longrightarrow> CHR ''{'' \<notin> set e \<and> CHR ''}'' \<notin> set e \<and> CHR ''$'' \<notin> set e"
    by simp
qed

lemma obeys_append: "obeys fr xs \<Longrightarrow> obeys fr ys \<Longrightarrow> obeys fr (xs @ ys)"
proof (induction xs)
  case Nil
  then show ?case by simp
next
  case (Cons c xs)
  then have tl: "obeys fr (xs @ ys)" by simp
  show ?case
  proof (cases "fr c")
    case None
    with tl show ?thesis by simp
  next
    case (Some es)
    with Cons.prems obtain e where "e \<in> set es" "prefix e (map fst xs)"
      by (auto simp: list_ex_iff)
    then have "\<exists>e\<in>set es. prefix e (map fst xs @ map fst ys)"
      using prefix_prefix by blast
    with Some tl show ?thesis by (simp add: list_ex_iff)
  qed
qed

lemma obeys_suffix: "obeys fr (xs @ ys) \<Longrightarrow> obeys fr ys"
  by (induction xs) auto

lemma obeys_before_brace:
  assumes "plain_follow fr" "fst c = CHR ''{'' \<or> fst c = CHR ''}''"
  shows "obeys fr (xs @ c # ys) \<Longrightarrow> obeys fr xs"
proof (induction xs)
  case Nil
  then show ?case by simp
next
  case (Cons x xs)
  then have tl: "obeys fr xs" by simp
  show ?case
  proof (cases "fr x")
    case None
    with tl show ?thesis by simp
  next
    case (Some es)
    with Cons.prems obtain e where e: "e \<in> set es" "prefix e (map fst xs @ fst c # map fst ys)"
      by (auto simp: list_ex_iff)
    from plain_followD(4)[OF assms(1) Some e(1)] have "CHR ''{'' \<notin> set e" "CHR ''}'' \<notin> set e"
      by simp_all
    with assms(2) have "fst c \<notin> set e" by auto
    from prefix_barrier[OF e(2) this] e(1) Some tl show ?thesis
      by (auto simp: list_ex_iff)
  qed
qed

lemma obeys_single_brace:
  assumes "plain_follow fr" "fst c = CHR ''{'' \<or> fst c = CHR ''}''"
  shows "obeys fr [c]"
proof -
  have "fr c = None"
  proof (cases "fr c")
    case (Some es)
    from plain_followD(1,2)[OF assms(1) Some] assms(2) show ?thesis by auto
  qed simp
  then show ?thesis by simp
qed

lemma obeys_upto_brace:
  assumes "plain_follow fr" "fst c = CHR ''{'' \<or> fst c = CHR ''}''"
    and "obeys fr (xs @ c # ys)"
  shows "obeys fr (xs @ [c])"
  using obeys_before_brace[OF assms] obeys_single_brace[OF assms(1,2)]
  by (rule obeys_append)

lemma expand_traced_head:
  "fst c \<noteq> CHR ''$'' \<Longrightarrow> expand_traced pre m post (c # cs) = c # expand_traced pre m post cs"
  by (cases cs) auto

lemma expand_traced_keeps_prefix:
  "prefix e (map fst r) \<Longrightarrow> CHR ''$'' \<notin> set e \<Longrightarrow>
     prefix e (map fst (expand_traced pre m post r))"
proof (induction e arbitrary: r)
  case Nil
  then show ?case by simp
next
  case (Cons a e)
  then obtain c cs where r: "r = c # cs" "fst c = a" "prefix e (map fst cs)"
    by (cases r) auto
  with Cons.prems have "fst c \<noteq> CHR ''$''" by auto
  with Cons.IH[OF r(3)] Cons.prems r show ?case
    by (simp add: expand_traced_head)
qed

lemma obeys_Cons_expand:
  assumes "plain_follow fr" "obeys fr (c # cs)" "fst c \<noteq> CHR ''$''"
    and "obeys fr (expand_traced pre m post cs)"
  shows "obeys fr (c # expand_traced pre m post cs)"
proof (cases "fr c")
  case None
  with assms(4) show ?thesis by simp
next
  case (Some es)
  with assms(2) obtain e where e: "e \<in> set es" "prefix e (map fst cs)"
    by (auto simp: list_ex_iff)
  from plain_followD(4)[OF assms(1) Some e(1)] have "CHR ''$'' \<notin> set e" by simp
  from expand_traced_keeps_prefix[OF e(2) this] e(1) Some assms(4) show ?thesis
    by (auto simp: list_ex_iff)
qed

lemma dollar_free_follow:
  assumes "plain_follow fr" "fst c = CHR ''$''"
  shows "fr c = None"
proof (cases "fr c")
  case (Some es)
  from plain_followD(3)[OF assms(1) Some] assms(2) show ?thesis by auto
qed simp

lemma obeys_expand:
  assumes "plain_follow fr"
  shows "obeys fr pre \<Longrightarrow> obeys fr m \<Longrightarrow> obeys fr post \<Longrightarrow> obeys fr r
           \<Longrightarrow> obeys fr (expand_traced pre m post r)"
proof (induction pre m post r rule: expand_traced.induct)
  case (1 pre m post)
  then show ?case by simp
next
  case (2 pre m post c)
  then show ?case by simp
next
  case (3 pre m post c d ds)
  from "3.prems" have tl: "obeys fr (d # ds)" and tl2: "obeys fr ds" by simp_all
  note ctx = "3.prems"(1-3)
  show ?case
  proof (cases "fst c = CHR ''$''")
    case True
    note dollar = dollar_free_follow[OF assms(1) True]
    consider (dd) "fst d = CHR ''$''" | (amp) "fst d \<noteq> CHR ''$''" "fst d = CHR ''&''"
      | (bq) "fst d \<noteq> CHR ''$''" "fst d \<noteq> CHR ''&''" "fst d = CHR ''`''"
      | (sq) "fst d \<noteq> CHR ''$''" "fst d \<noteq> CHR ''&''" "fst d \<noteq> CHR ''`''" "fst d = CHR 0x27"
      | (other) "fst d \<noteq> CHR ''$''" "fst d \<noteq> CHR ''&''" "fst d \<noteq> CHR ''`''" "fst d \<noteq> CHR 0x27"
      by blast
    then show ?thesis
    proof cases
      case dd
      with True "3.IH"(1)[OF _ _ ctx tl2] dollar show ?thesis by simp
    next
      case amp
      with True "3.IH"(2)[OF _ _ _ ctx tl2] ctx show ?thesis by (auto intro: obeys_append)
    next
      case bq
      with True "3.IH"(3)[OF _ _ _ _ ctx tl2] ctx show ?thesis by (auto intro: obeys_append)
    next
      case sq
      with True "3.IH"(4)[OF _ _ _ _ _ ctx tl2] ctx show ?thesis by (auto intro: obeys_append)
    next
      case other
      with True "3.IH"(5)[OF _ _ _ _ _ ctx tl] dollar show ?thesis by simp
    qed
  next
    case False
    with "3.IH"(6)[OF _ ctx tl] have "obeys fr (expand_traced pre m post (d # ds))" by simp
    from obeys_Cons_expand[OF assms(1) "3.prems"(4) False this] False show ?thesis by simp
  qed
qed

lemma replace_from_traced_skip:
  "\<not> prefix pat (map fst (c # cs)) \<Longrightarrow>
     replace_from_traced pat r pre (c # cs) = c # replace_from_traced pat r (pre @ [c]) cs"
  by (simp add: replace_from_traced.simps(2))

lemma replace_from_traced_match:
  "pat \<noteq> [] \<Longrightarrow> prefix pat (map fst (c # cs)) \<Longrightarrow>
     replace_from_traced pat r pre (c # cs)
       = expand_traced pre (take (length pat) (c # cs)) (drop (length pat) (c # cs)) r
         @ replace_from_traced pat r (pre @ take (length pat) (c # cs))
             (drop (length pat) (c # cs))"
  by (simp add: replace_from_traced.simps(2))

lemma replace_from_traced_keeps_prefix:
  "prefix e (map fst s) \<Longrightarrow> CHR ''{'' \<notin> set e \<Longrightarrow>
     prefix e (map fst (replace_from_traced (CHR ''{'' # k) r pre s))"
proof (induction e arbitrary: s pre)
  case Nil
  then show ?case by simp
next
  case (Cons a e)
  then obtain c cs where s: "s = c # cs" "fst c = a" "prefix e (map fst cs)"
    by (cases s) auto
  with Cons.prems have "\<not> prefix (CHR ''{'' # k) (map fst (c # cs))" by auto
  from replace_from_traced_skip[OF this] Cons.IH[OF s(3), of "pre @ [c]"] Cons.prems s
  show ?case by simp
qed

lemma obeys_replace:
  assumes "plain_follow fr" "obeys fr r"
  shows "obeys fr (pre @ s) \<Longrightarrow>
           obeys fr (replace_from_traced (CHR ''{'' # k @ ''}'') r pre s)"
proof (induction s arbitrary: pre rule: length_induct)
  case (1 s)
  let ?pat = "CHR ''{'' # k @ ''}''"
  show ?case
  proof (cases s)
    case Nil
    then show ?thesis by simp
  next
    case (Cons c cs)
    show ?thesis
    proof (cases "prefix ?pat (map fst s)")
      case True
      let ?n = "length ?pat"
      let ?m = "take ?n s" and ?post = "drop ?n s"
      from True have len: "?n \<le> length s"
        by (metis length_map prefix_length_le)
      from True have mt: "map fst ?m = ?pat"
        by (metis append_eq_conv_conj prefix_def take_map)
      have s_split: "s = ?m @ ?post" by simp
      have c_brace: "fst c = CHR ''{''" using True Cons by simp
      have pre_ok: "obeys fr pre"
        using obeys_before_brace[OF assms(1), of c pre cs] c_brace "1.prems" Cons by simp
      have s_ok: "obeys fr s" using "1.prems" by (rule obeys_suffix)
      have post_ok: "obeys fr ?post"
        using s_ok obeys_suffix[of fr ?m ?post] by simp
      have m_ne: "?m \<noteq> []" using Cons by simp
      then obtain mb ml where m_snoc: "?m = mb @ [ml]"
        by (metis rev_exhaust)
      have "map fst mb @ [fst ml] = CHR ''{'' # k @ ''}''" using mt m_snoc by simp
      then have ml_brace: "fst ml = CHR ''}''"
        by (metis append_Cons last_snoc)
      have "obeys fr (mb @ ml # ?post)" using s_ok s_split m_snoc
        by (metis append.assoc append_Cons append_Nil)
      from obeys_upto_brace[OF assms(1) _ this] ml_brace m_snoc
      have m_ok: "obeys fr ?m" by simp
      have e_ok: "obeys fr (expand_traced pre ?m ?post r)"
        using obeys_expand[OF assms(1) pre_ok m_ok post_ok assms(2)] .
      have "length ?post < length s" using Cons by simp
      moreover have "obeys fr ((pre @ ?m) @ ?post)" using "1.prems" by simp
      ultimately have rec: "obeys fr (replace_from_traced ?pat r (pre @ ?m) ?post)"
        using "1.IH" by blast
      have "replace_from_traced ?pat r pre s
              = expand_traced pre ?m ?post r @ replace_from_traced ?pat r (pre @ ?m) ?post"
        using replace_from_traced_match[of ?pat c cs r pre] True Cons by simp
      with e_ok rec show ?thesis by (simp add: obeys_append)
    next
      case False
      have "obeys fr ((pre @ [c]) @ cs)" using "1.prems" Cons by simp
      then have rec: "obeys fr (replace_from_traced ?pat r (pre @ [c]) cs)"
        using "1.IH" Cons by simp
      have ccs: "obeys fr (c # cs)" using "1.prems" Cons obeys_suffix by blast
      have "obeys fr (c # replace_from_traced ?pat r (pre @ [c]) cs)"
      proof (cases "fr c")
        case None
        with rec show ?thesis by simp
      next
        case (Some es)
        with ccs obtain e where e: "e \<in> set es" "prefix e (map fst cs)"
          by (auto simp: list_ex_iff)
        from plain_followD(4)[OF assms(1) Some e(1)] have "CHR ''{'' \<notin> set e" by simp
        from replace_from_traced_keeps_prefix[OF e(2) this, of "k @ ''}''" r "pre @ [c]"]
          e(1) Some rec
        show ?thesis by (auto simp: list_ex_iff)
      qed
      with replace_from_traced_skip[of ?pat c cs r pre] False Cons show ?thesis by simp
    qed
  qed
qed

lemma obeys_render:
  assumes "plain_follow fr"
  shows "obeys fr template \<Longrightarrow>
     \<forall>kv\<in>set data. obeys fr (mark From_value (if raw then snd kv else Template_escape (snd kv)))
     \<Longrightarrow> obeys fr (render_traced template data raw)"
proof (induction data arbitrary: template)
  case Nil
  then show ?case by simp
next
  case (Cons kv data)
  obtain k v where kv: "kv = (k, v)" by (cases kv)
  from Cons.prems kv
  have r: "obeys fr (mark From_value (if raw then v else Template_escape v))"
    by (cases raw) simp_all
  have "obeys fr (replace_from_traced (placeholder k)
          (mark From_value (if raw then v else Template_escape v)) [] template)"
    unfolding placeholder_def
    using obeys_replace[OF assms r, of "[]" template k] Cons.prems(1) by simp
  with Cons.IH Cons.prems(2) kv show ?case by simp
qed

lemma plain_follow_escape_rule: "plain_follow escape_rule"
  by (auto simp: plain_follow_def escape_rule_def entity_tails_def)

lemma mark_append: "mark org (a @ b) = mark org a @ mark org b"
  by (simp add: mark_def)

lemma obeys_template: "obeys escape_rule (mark From_template t)"
  by (induction t) (simp_all add: mark_def escape_rule_def)

lemma obeys_escape_char: "obeys escape_rule (mark From_value (escape_char c))"
  by (simp add: escape_char_def mark_def escape_rule_def entity_tails_def)

lemma obeys_escaped: "obeys escape_rule (mark From_value (Template_escape v))"
  unfolding escape_concat
proof (induction v)
  case Nil
  show ?case by (simp add: mark_def)
next
  case (Cons c v)
  from obeys_append[OF obeys_escape_char[of c] Cons] show ?case
    by (simp add: mark_append)
qed

lemma escaped_values_obeys: "escaped_values xs = obeys escape_rule xs"
  by (induction xs) (auto simp: escape_rule_def list_ex_iff)

text \<open>
  With literal keys, in the text rendered with escaping no character that comes from a
  value of the data is \<open><\<close>, \<open>>\<close>, a double or single quote or \<open>/\<close>, and every ampersand that
  comes from a value starts one of the character references \<open>&amp;\<close>, \<open>&quot;\<close>,
  \<open>&#39;\<close>, \<open>&lt;\<close>, \<open>&gt;\<close>, \<open>&#x2F;\<close>.  Rendering with escaping is rendering raw
  with the escaped values, and escaping acts on each character on its own.
\<close>

lemma render_literal_escaped:
  assumes "list_all (\<lambda>kv. literal_key (fst kv)) data"
  shows "map fst (render_traced (mark From_template template) data False)
           = render_literal template data False
         \<and> escaped_values (render_traced (mark From_template template) data False)
         \<and> render_literal template data False
             = render_literal template (map (\<lambda>kv. (fst kv, Template_escape (snd kv))) data) True
         \<and> (\<forall>v. Template_escape v = concat (map escape_char v))"
proof (intro conjI allI)
  show "map fst (render_traced (mark From_template template) data False)
           = render_literal template data False"
    by (simp add: render_traced_erase)
  show "escaped_values (render_traced (mark From_template template) data False)"
    unfolding escaped_values_obeys
    by (rule obeys_render[OF plain_follow_escape_rule obeys_template]) (simp add: obeys_escaped)
  show "render_literal template data False
             = render_literal template (map (\<lambda>kv. (fst kv, Template_escape (snd kv))) data) True"
    by (induction data arbitrary: template) auto
  show "Template_escape v = concat (map escape_char v)" for v
    by (rule escape_concat)
qed

lemma render_literal_escaped_example:
  "list_all (\<lambda>kv. literal_key (fst kv)) [(''a'', ''<i>&$`''), (''b'', ''$&'')]
   \<and> render_literal ''<b>{a}</b>{b}'' [(''a'', ''<i>&$`''), (''b'', ''$&'')] False
       = ''<b>&lt;i&gt;&amp;<b></b>{b}amp;''
   \<and> render_traced (mark From_template ''<b>{a}</b>{b}'')
         [(''a'', ''<i>&$`''), (''b'', ''$&'')] False
       = mark From_template ''<b>'' @ mark From_value ''&lt;i&gt;&amp;''
         @ mark From_template ''<b></b>{b}'' @ mark From_value ''amp;''
   \<and> escaped_values (mark From_template ''<b>'' @ mark From_value ''&lt;i&gt;&amp;''
         @ mark From_template ''<b></b>{b}'' @ mark From_value ''amp;'')"
  using render_literal_escaped[of "[(''a'', ''<i>&$`''), (''b'', ''$&'')]" "''<b>{a}</b>{b}''"]
  by (simp add: literal_key_def repetition_count_def is_digit_def placeholder_def
      escape_concat escape_char_def replace_all_def replace_from.simps(2)
      replace_from_traced.simps(2) mark_def entity_tails_def)

subsection \<open>Literal keys: the markup of the summary\<close>

lemma plain_follow_closing_rule: "plain_follow closing_rule"
  by (auto simp: plain_follow_def closing_rule_def)

lemma obeys_closing_same_text:
  "obeys closing_rule (mark org (map fst xs)) = obeys closing_rule xs"
  by (induction xs) (simp_all add: mark_def closing_rule_def comp_def)

lemma obeys_closing_no_slash:
  "CHR ''/'' \<notin> set s \<Longrightarrow> obeys closing_rule (mark org s)"
  by (induction s) (auto simp: mark_def closing_rule_def)

lemma escape_no_slash: "CHR ''/'' \<notin> set (Template_escape v)"
  by (auto simp: escape_concat escape_char_def split: if_splits)

lemma obeys_closing_render:
  assumes "obeys closing_rule (mark From_template template)"
    and "\<forall>kv\<in>set data. obeys closing_rule
            (mark From_value (if raw then snd kv else Template_escape (snd kv)))"
  shows "obeys closing_rule (mark org (render_literal template data raw))"
proof -
  have "obeys closing_rule (render_traced (mark From_template template) data raw)"
    using obeys_render[OF plain_follow_closing_rule assms] .
  then have "obeys closing_rule
      (mark org (map fst (render_traced (mark From_template template) data raw)))"
    by (simp only: obeys_closing_same_text)
  then show ?thesis by (simp add: render_traced_erase)
qed

lemma obeys_closing_item_template: "obeys closing_rule (mark org item_template)"
  by (simp add: item_template_def mark_def closing_rule_def)

lemma obeys_closing_items:
  "obeys closing_rule (mark org (renderObject_literal item_template data False))"
proof (induction data)
  case Nil
  show ?case by (simp add: mark_def)
next
  case (Cons kv data)
  obtain k v where kv: "kv = (k, v)" by (cases kv)
  have "obeys closing_rule
          (mark org (render_literal item_template [(''key'', k), (''value'', v)] False))"
    by (rule obeys_closing_render[OF obeys_closing_item_template])
       (simp add: obeys_closing_no_slash escape_no_slash)
  from obeys_append[OF this Cons] kv show ?case by (simp add: mark_append)
qed

lemma obeys_closing_markup:
  "obeys closing_rule (mark org (markup_literal formatted))"
  unfolding markup_literal_def
  by (rule obeys_closing_render)
     (simp_all add: mark_def closing_rule_def obeys_closing_items[unfolded mark_def])

lemma obeys_closing_no_li:
  "obeys closing_rule xs \<Longrightarrow> \<not> sublist ''</li>'' (map fst xs)"
proof (induction xs)
  case Nil
  then show ?case by simp
next
  case (Cons x xs)
  then have tl: "\<not> sublist ''</li>'' (map fst xs)" by simp
  have "\<not> prefix ''</li>'' (map fst (x # xs))"
  proof
    assume p: "prefix ''</li>'' (map fst (x # xs))"
    then obtain y ys where xs: "xs = y # ys" "fst y = CHR ''/''"
      "prefix ''li>'' (map fst ys)"
      by (cases xs) auto
    with Cons.prems have "prefix ''s'' (map fst ys) \<or> prefix ''u'' (map fst ys)"
      by (simp add: closing_rule_def)
    with xs(3) show False by (cases ys) auto
  qed
  with tl show ?case by (simp add: sublist_Cons_right)
qed

lemma markup_no_closing_li: "\<not> sublist ''</li>'' (markup_literal formatted)"
  using obeys_closing_no_li[OF obeys_closing_markup[of From_template formatted]]
  by simp

lemma replace_all_plain:
  assumes "CHR ''$'' \<notin> set r" "CHR ''{'' \<notin> set u"
  shows "replace_all (CHR ''{'' # k) r (u @ s) = u @ replace_all (CHR ''{'' # k) r s"
  using replace_from_plain[OF assms(2), of k r "[]" s]
    replace_from_pre_irrelevant[OF assms(1), of "CHR ''{'' # k" "[] @ u" s "[]"]
  by (simp add: replace_all_def)

lemma replace_all_match:
  assumes "CHR ''$'' \<notin> set r" "pat \<noteq> []"
  shows "replace_all pat r (pat @ s) = r @ replace_all pat r s"
  using replace_from_match[OF assms(2), of r "[]" s]
    replace_from_pre_irrelevant[OF assms(1), of pat "[] @ pat" s "[]"]
  by (simp add: replace_all_def expand_no_dollar[OF assms(1)])

lemma replace_all_no_match: "\<not> sublist pat s \<Longrightarrow> replace_all pat r s = s"
  by (simp add: replace_all_def replace_from_no_match)

lemma replace_all_Cons_skip:
  assumes "CHR ''$'' \<notin> set r" "\<not> prefix pat (c # cs)"
  shows "replace_all pat r (c # cs) = c # replace_all pat r cs"
  using replace_from_skip[OF assms(2), of r "[]"]
    replace_from_pre_irrelevant[OF assms(1), of pat "[] @ [c]" cs "[]"]
  by (simp add: replace_all_def)

lemma replace_all_barrier:
  assumes "CHR ''$'' \<notin> set r" "c \<notin> set pat" "pat \<noteq> []"
  shows "replace_all pat r (a @ c # b) = replace_all pat r a @ c # replace_all pat r b"
proof (induction a rule: length_induct)
  case (1 a)
  show ?case
  proof (cases a)
    case Nil
    have "\<not> prefix pat (c # b)" using assms(2,3) by (cases pat) auto
    from replace_all_Cons_skip[OF assms(1) this] Nil show ?thesis
      by (simp add: replace_all_def)
  next
    case (Cons x xs)
    show ?thesis
    proof (cases "prefix pat (a @ c # b)")
      case True
      with prefix_barrier[of pat a c b] assms(2)
      obtain a2 where a2: "a = pat @ a2" by (auto elim: prefixE)
      with assms(3) have "length a2 < length a" by simp
      with 1 have "replace_all pat r (a2 @ c # b)
                     = replace_all pat r a2 @ c # replace_all pat r b" by blast
      with a2 replace_all_match[OF assms(1,3)] show ?thesis by simp
    next
      case False
      then have np: "\<not> prefix pat (x # (xs @ c # b))" "\<not> prefix pat (x # xs)"
        using Cons prefix_prefix[of pat "x # xs" "c # b"] by auto
      from 1 Cons have "replace_all pat r (xs @ c # b)
                     = replace_all pat r xs @ c # replace_all pat r b" by simp
      with replace_all_Cons_skip[OF assms(1) np(1)] replace_all_Cons_skip[OF assms(1) np(2)]
        Cons show ?thesis by simp
    qed
  qed
qed

lemma set_replace_from:
  "CHR ''$'' \<notin> set r \<Longrightarrow> set (replace_from pat r pre s) \<subseteq> set s \<union> set r"
proof (induction pat r pre s rule: replace_from.induct)
  case (1 pat repl pre)
  then show ?case by simp
next
  case (2 pat repl pre c cs)
  show ?case
  proof (cases "pat \<noteq> [] \<and> prefix pat (c # cs)")
    case True
    have "set (drop (length pat) (c # cs)) \<subseteq> set (c # cs)" by (rule set_drop_subset)
    with True 2(1)[OF True 2(3)] 2(3) show ?thesis
      by (auto simp: replace_from.simps(2) expand_no_dollar)
  next
    case False
    with 2(2)[OF False 2(3)] show ?thesis
      by (cases "pat = []") (auto simp: replace_from.simps(2))
  qed
qed

lemma escape_no_lt: "CHR ''<'' \<notin> set (Template_escape v)"
  by (auto simp: escape_concat escape_char_def split: if_splits)

lemma item_form:
  assumes "CHR ''$'' \<notin> set k" "CHR ''$'' \<notin> set v"
  shows "render_literal item_template [(''key'', k), (''value'', v)] False
           = ''<li>'' @ replace_all ''{value}'' (Template_escape v) (Template_escape k)
             @ '': <span class=\"admin_helper_hours\">'' @ Template_escape v @ ''</span>''"
proof -
  let ?ek = "Template_escape k" and ?ev = "Template_escape v"
  have ek: "CHR ''$'' \<notin> set ?ek" and ev: "CHR ''$'' \<notin> set ?ev"
    using assms by (simp_all add: escape_no_dollar)
  have t: "item_template = ''<li>'' @ ''{key}'' @ '': <span class=\"admin_helper_hours\">{value}</span>''"
    by (simp add: item_template_def)
  have p1: "replace_all ''{key}'' ?ek item_template
              = ''<li>'' @ ?ek @ '': <span class=\"admin_helper_hours\">{value}</span>''"
    unfolding t
    by (subst replace_all_plain[OF ek], simp, subst replace_all_match[OF ek], simp,
        subst replace_all_no_match, simp add: sublist_Cons_right, rule refl)
  have s2: "''<li>'' @ ?ek @ '': <span class=\"admin_helper_hours\">{value}</span>''
              = ''<li>'' @ (?ek @ CHR '':'' # ('' <span class=\"admin_helper_hours\">'' @ ''{value}'' @ ''</span>''))"
    by simp
  have p2: "replace_all ''{value}'' ?ev
               (''<li>'' @ ?ek @ '': <span class=\"admin_helper_hours\">{value}</span>'')
              = ''<li>'' @ replace_all ''{value}'' ?ev ?ek
                @ '': <span class=\"admin_helper_hours\">'' @ ?ev @ ''</span>''"
    unfolding s2
    by (subst replace_all_plain[OF ev], simp, subst replace_all_barrier[OF ev], simp, simp,
        subst replace_all_plain[OF ev], simp, subst replace_all_match[OF ev], simp,
        subst replace_all_no_match, simp add: sublist_Cons_right, simp)
  have "render_literal item_template [(''key'', k), (''value'', v)] False
          = replace_all ''{value}'' ?ev (replace_all ''{key}'' ?ek item_template)"
    by (simp add: placeholder_def)
  also have "\<dots> = replace_all ''{value}'' ?ev
               (''<li>'' @ ?ek @ '': <span class=\"admin_helper_hours\">{value}</span>'')"
    by (simp only: p1)
  also note p2
  finally show ?thesis .
qed

lemma count_skip:
  "CHR ''<'' \<notin> set a \<Longrightarrow>
     count_occurrences (CHR ''<'' # p) (a @ b) = count_occurrences (CHR ''<'' # p) b"
  by (induction a) auto

lemma count_split:
  assumes "c \<notin> set (tl p)"
  shows "count_occurrences p (a @ c # b) = count_occurrences p a + count_occurrences p (c # b)
           - (if p = [] then 1 else 0)"
proof (induction a)
  case Nil
  then show ?case by simp
next
  case (Cons x a)
  have "prefix p ((x # a) @ c # b) \<longleftrightarrow> prefix p (x # a)"
    using prefix_barrier_tl[of p "x # a" c b] assms prefix_prefix[of p "x # a" "c # b"]
    by auto
  with Cons show ?case by (cases "p = []") auto
qed

lemma count_split_li:
  "count_occurrences ''<li>'' (a @ CHR ''<'' # b)
     = count_occurrences ''<li>'' a + count_occurrences ''<li>'' (CHR ''<'' # b)"
  using count_split[of "CHR ''<''" "''<li>''" a b] by simp

lemma item_count:
  assumes "CHR ''$'' \<notin> set k" "CHR ''$'' \<notin> set v"
  shows "count_occurrences ''<li>''
           (render_literal item_template [(''key'', k), (''value'', v)] False) = 1"
    and "\<exists>t. render_literal item_template [(''key'', k), (''value'', v)] False = CHR ''<'' # t"
    and "CHR ''$'' \<notin> set (render_literal item_template [(''key'', k), (''value'', v)] False)"
proof -
  let ?x = "replace_all ''{value}'' (Template_escape v) (Template_escape k)"
  have ev: "CHR ''$'' \<notin> set (Template_escape v)" and ek: "CHR ''$'' \<notin> set (Template_escape k)"
    using assms by (simp_all add: escape_no_dollar)
  have sub: "set ?x \<subseteq> set (Template_escape k) \<union> set (Template_escape v)"
    unfolding replace_all_def by (rule set_replace_from[OF ev])
  have x: "CHR ''<'' \<notin> set ?x" "CHR ''$'' \<notin> set ?x"
    using sub escape_no_lt[of k] escape_no_lt[of v] ek ev by auto
  show "count_occurrences ''<li>''
           (render_literal item_template [(''key'', k), (''value'', v)] False) = 1"
    unfolding item_form[OF assms]
    using x(1) escape_no_lt[of v] by (simp add: count_skip)
  show "\<exists>t. render_literal item_template [(''key'', k), (''value'', v)] False = CHR ''<'' # t"
    unfolding item_form[OF assms] by simp
  show "CHR ''$'' \<notin> set (render_literal item_template [(''key'', k), (''value'', v)] False)"
    unfolding item_form[OF assms] using x(2) ev by simp
qed

lemma items_count:
  "\<forall>kv\<in>set data. CHR ''$'' \<notin> set (fst kv) \<and> CHR ''$'' \<notin> set (snd kv) \<Longrightarrow>
     count_occurrences ''<li>'' (renderObject_literal item_template data False) = length data
     \<and> CHR ''$'' \<notin> set (renderObject_literal item_template data False)
     \<and> (data \<noteq> [] \<longrightarrow>
          (\<exists>t. renderObject_literal item_template data False = CHR ''<'' # t))"
proof (induction data)
  case Nil
  then show ?case by simp
next
  case (Cons kv data)
  obtain k v where kv: "kv = (k, v)" by (cases kv)
  with Cons.prems have d: "CHR ''$'' \<notin> set k" "CHR ''$'' \<notin> set v" by auto
  note it = item_count[OF d]
  from Cons have ih: "count_occurrences ''<li>'' (renderObject_literal item_template data False)
      = length data"
    "CHR ''$'' \<notin> set (renderObject_literal item_template data False)"
    "data \<noteq> [] \<longrightarrow> (\<exists>t. renderObject_literal item_template data False = CHR ''<'' # t)"
    by auto
  let ?item = "render_literal item_template [(''key'', k), (''value'', v)] False"
  let ?rest = "renderObject_literal item_template data False"
  have cnt: "count_occurrences ''<li>'' (?item @ ?rest) = Suc (length data)"
  proof (cases data)
    case Nil
    with it(1) show ?thesis by simp
  next
    case (Cons a list)
    with ih(3) obtain t where t: "?rest = CHR ''<'' # t" by auto
    have "count_occurrences ''<li>'' (?item @ CHR ''<'' # t)
            = count_occurrences ''<li>'' ?item + count_occurrences ''<li>'' (CHR ''<'' # t)"
      by (rule count_split_li)
    with t it(1) ih(1) show ?thesis by simp
  qed
  from it(2) obtain t where "?item = CHR ''<'' # t" ..
  then have "\<exists>t. ?item @ ?rest = CHR ''<'' # t" by simp
  with cnt it(3) ih(2) kv show ?case by simp
qed

lemma length_own_properties: "length (own_properties obj) = length obj"
  by (simp add: own_properties_def sum_length_filter_compl)

lemma markup_count:
  assumes "\<forall>kv\<in>set formatted. CHR ''$'' \<notin> set (fst kv) \<and> CHR ''$'' \<notin> set (snd kv)"
  shows "count_occurrences ''<li>'' (markup_literal formatted) = length formatted"
proof -
  let ?items = "renderObject_literal item_template (own_properties formatted) False"
  from assms have "\<forall>kv\<in>set (own_properties formatted).
      CHR ''$'' \<notin> set (fst kv) \<and> CHR ''$'' \<notin> set (snd kv)"
    by (simp add: set_own_properties)
  from items_count[OF this] have it: "count_occurrences ''<li>'' ?items = length formatted"
    "CHR ''$'' \<notin> set ?items"
    by (simp_all add: length_own_properties)
  have "markup_literal formatted = replace_all ''{items}'' ?items (''<ul>'' @ ''{items}'' @ ''</ul>'')"
    by (simp add: markup_literal_def placeholder_def)
  also have "\<dots> = ''<ul>'' @ ?items @ ''</ul>''"
    by (subst replace_all_plain[OF it(2)], simp, subst replace_all_match[OF it(2)], simp,
        subst replace_all_no_match, simp add: sublist_Cons_right, rule refl)
  finally have m: "markup_literal formatted = ''<ul>'' @ (?items @ CHR ''<'' # ''/ul>'')"
    by simp
  show ?thesis
    unfolding m using it(1) by (simp add: count_split_li)
qed

lemma dec_digits_no_dollar: "CHR ''$'' \<notin> set (dec_digits n)"
proof (induction n rule: dec_digits.induct)
  case (1 n)
  show ?case
  proof (cases "n \<le> 0")
    case True
    then show ?thesis by (simp add: dec_digits.simps)
  next
    case False
    have "nat (n mod 10) < length ''0123456789''" using False by simp
    then have "''0123456789'' ! nat (n mod 10) \<in> set ''0123456789''"
      by (rule nth_mem)
    then have "''0123456789'' ! nat (n mod 10) \<noteq> CHR ''$''" by auto
    with 1 False show ?thesis by (simp add: dec_digits.simps[of n])
  qed
qed

lemma decimal_no_dollar: "CHR ''$'' \<notin> set (decimal n)"
  by (simp add: decimal_def dec_digits_no_dollar)

lemma number_to_string_large_no_dollar: "CHR ''$'' \<notin> set (number_to_string_large a)"
proof -
  define v where "v = decimal (shortest_value a (length (decimal \<lfloor>a\<rfloor>) - 1))"
  define ds where "ds = rev (dropWhile (\<lambda>c. c = CHR ''0'') (rev v))"
  have "set ds \<subseteq> set v"
    by (auto simp: ds_def dest: set_dropWhileD)
  moreover have "CHR ''$'' \<notin> set v"
    by (simp add: v_def decimal_no_dollar)
  ultimately have "CHR ''$'' \<notin> set ds" by auto
  then have "CHR ''$'' \<notin> set (case ds of
                                 [] \<Rightarrow> ''0''
                               | d # rest \<Rightarrow> if rest = [] then [d] else d # CHR ''.'' # rest)"
    by (cases ds) auto
  then show ?thesis
    by (simp add: number_to_string_large_def Let_def v_def ds_def decimal_no_dollar)
qed

lemma toFixed_no_dollar: "CHR ''$'' \<notin> set (toFixed x f)"
proof (cases x)
  case (Fin q)
  have t: "CHR ''$'' \<notin> set (take n m)" "CHR ''$'' \<notin> set (drop n m)"
    if "CHR ''$'' \<notin> set m" for n and m :: string
    using that by (auto dest: in_set_takeD in_set_dropD)
  have m: "CHR ''$'' \<notin> set (if c then replicate k CHR ''0'' @ decimal j else decimal j)"
    for c k j
    by (simp add: decimal_no_dollar)
  show ?thesis
    unfolding Fin toFixed_def Let_def
    by (simp add: number_to_string_large_no_dollar t[OF m] m decimal_no_dollar
          del: set_replicate)
qed (simp_all add: toFixed_def)

lemma set_set_property: "set (set_property k v obj) \<subseteq> insert (k, v) (set obj)"
  by (auto simp: set_property_def)

lemma format_entries_no_dollar:
  "format_entries d totals entries acc = Inr formatted \<Longrightarrow>
     \<forall>kv\<in>set acc. CHR ''$'' \<notin> set (snd kv) \<Longrightarrow>
     \<forall>kv\<in>set formatted. CHR ''$'' \<notin> set (snd kv)"
proof (induction d totals entries acc rule: format_entries.induct)
  case (1 decimals totals formattedTotals)
  then show ?case by simp
next
  case (2 decimals totals key v rest formattedTotals)
  from "2.prems"(1) obtain own where own: "hasOwnProperty totals key = Inr own"
    by (cases "hasOwnProperty totals key") auto
  show ?case
  proof (cases own)
    case True
    with "2.prems"(1) own obtain n where n: "v = Num n" "\<not> 100 < decimals"
      "format_entries decimals totals rest (set_property key (toFixed n decimals) formattedTotals)
         = Inr formatted"
      by (cases v) (auto split: if_splits)
    have "\<forall>kv\<in>set (set_property key (toFixed n decimals) formattedTotals).
            CHR ''$'' \<notin> set (snd kv)"
      using set_set_property[of key "toFixed n decimals" formattedTotals] "2.prems"(2)
        toFixed_no_dollar[of n decimals] by auto
    from "2.IH"(1)[OF own True n(1) n(2) n(3) this] show ?thesis .
  next
    case False
    with "2.prems"(1) own have "format_entries decimals totals rest formattedTotals = Inr formatted"
      by simp
    from "2.IH"(2)[OF own False this "2.prems"(2)] show ?thesis .
  qed
qed

lemma formatTotals_no_dollar:
  "Summarize_formatTotals totals decimals = Inr formatted \<Longrightarrow>
     \<forall>kv\<in>set formatted. CHR ''$'' \<notin> set (snd kv)"
  unfolding Summarize_formatTotals_def
  by (erule format_entries_no_dollar) simp

lemma format_entries_keys:
  "format_entries d totals entries acc = Inr formatted \<Longrightarrow>
     ''hasOwnProperty'' \<notin> fst ` set acc \<Longrightarrow>
     ''hasOwnProperty'' \<notin> fst ` set formatted"
proof (induction d totals entries acc rule: format_entries.induct)
  case (1 decimals totals formattedTotals)
  then show ?case by simp
next
  case (2 decimals totals key v rest formattedTotals)
  from "2.prems"(1) obtain own where own: "hasOwnProperty totals key = Inr own"
    by (cases "hasOwnProperty totals key") auto
  show ?case
  proof (cases own)
    case True
    with "2.prems"(1) own obtain n where n: "v = Num n" "\<not> 100 < decimals"
      "format_entries decimals totals rest (set_property key (toFixed n decimals) formattedTotals)
         = Inr formatted"
      by (cases v) (auto split: if_splits)
    from own True have "key \<noteq> ''hasOwnProperty''"
      by (auto simp: hasOwnProperty_def split: if_splits)
    then have "''hasOwnProperty'' \<notin> fst ` set (set_property key (toFixed n decimals) formattedTotals)"
      using set_set_property[of key "toFixed n decimals" formattedTotals] "2.prems"(2)
      by auto
    from "2.IH"(1)[OF own True n(1) n(2) n(3) this] show ?thesis .
  next
    case False
    with "2.prems"(1) own have "format_entries decimals totals rest formattedTotals = Inr formatted"
      by simp
    from "2.IH"(2)[OF own False this "2.prems"(2)] show ?thesis .
  qed
qed

lemma formatTotals_keys:
  "Summarize_formatTotals totals decimals = Inr formatted \<Longrightarrow>
     ''hasOwnProperty'' \<notin> fst ` set formatted"
  unfolding Summarize_formatTotals_def
  by (erule format_entries_keys) simp

subsection \<open>What holds of the source\<close>

text \<open>
  The lemmas of this subsection are about \<open>render\<close>, \<open>renderObject\<close> and the markup as
  the source computes them.  An object that owns a property \<open>hasOwnProperty\<close> makes
  \<open>renderObject\<close> throw; otherwise the markup of the summary is \<open>markup_literal\<close>, since
  its three keys are literal.  So the markup never has a closing tag \<open></li>\<close>, and it
  has one opening tag \<open><li>\<close> per label when no label and no value has a dollar sign;
  the values that \<open>_formatTotals\<close> produces have none.
\<close>

lemma renderObject_throws:
  assumes "''hasOwnProperty'' \<in> fst ` set data"
  shows "Template_renderObject template data raw = Inl TypeError"
proof -
  from assms have own: "map_of data ''hasOwnProperty'' \<noteq> None"
    by (simp add: map_of_eq_None_iff)
  from assms have "data \<noteq> []" by auto
  then have "own_properties data \<noteq> []"
    using length_own_properties[of data] by (metis length_0_conv)
  then obtain kv rest where "own_properties data = kv # rest"
    by (cases "own_properties data") auto
  then show ?thesis
    using own by (cases kv) (simp add: Template_renderObject_def hasOwnProperty_def)
qed

lemma summary_markup_cases:
  "summary_markup formatted =
     (if ''hasOwnProperty'' \<in> fst ` set formatted then Inl TypeError
      else Inr (markup_literal formatted))"
  by (simp add: summary_markup_literal) (simp add: summary_markup_def renderObject_throws)

lemma summary_markup_no_closing_li:
  "summary_markup formatted = Inr markup \<Longrightarrow> \<not> sublist ''</li>'' markup"
  using markup_no_closing_li[of formatted]
  by (auto simp: summary_markup_cases split: if_splits)

lemma summary_markup_count:
  "summary_markup formatted = Inr markup \<Longrightarrow>
     \<forall>kv\<in>set formatted. CHR ''$'' \<notin> set (fst kv) \<and> CHR ''$'' \<notin> set (snd kv) \<Longrightarrow>
     count_occurrences ''<li>'' markup = length formatted"
  using markup_count[of formatted]
  by (auto simp: summary_markup_cases split: if_splits)

lemma summary_markup_of_totals:
  "Summarize_formatTotals totals decimals = Inr formatted \<Longrightarrow>
     summary_markup formatted = Inr (markup_literal formatted)
     \<and> (\<forall>kv\<in>set formatted. CHR ''$'' \<notin> set (snd kv))"
  using formatTotals_keys[of totals decimals formatted]
    formatTotals_no_dollar[of totals decimals formatted]
  by (simp add: summary_markup_cases)

text \<open>
  For data whose keys are literal and do not include \<open>hasOwnProperty\<close>, \<open>render\<close> is
  \<open>render_literal\<close> on the properties in the order of the loop.  Then no character of
  the escaped rendering that comes from a value is \<open><\<close>, \<open>>\<close>, a quote or \<open>/\<close>, and
  every ampersand that comes from a value starts a character reference; every occurrence
  of the placeholder of a key is replaced, by the value itself when the value has no
  dollar sign; and the placeholder of a literal key that the data does not have stays.
\<close>

lemma literal_keys_values_escaped:
  assumes "list_all (\<lambda>kv. literal_key (fst kv)) data"
    and "''hasOwnProperty'' \<notin> fst ` set data"
  shows "Template_render template data False
           = Inr (map fst (render_traced (mark From_template template) (own_properties data) False))
         \<and> escaped_values
             (render_traced (mark From_template template) (own_properties data) False)"
proof -
  have "list_all (\<lambda>kv. literal_key (fst kv)) (own_properties data)"
    using assms(1) by (simp add: list_all_iff set_own_properties)
  from render_literal_escaped[OF this, of template] show ?thesis
    by (simp add: Template_render_literal[OF assms])
qed

lemma own_properties_single: "own_properties [kv] = [kv]"
  by (simp add: own_properties_def)

lemma literal_keys_every_occurrence:
  assumes "literal_key key" and "key \<noteq> ''hasOwnProperty''" and "CHR ''$'' \<notin> set v"
    and "ps \<noteq> []" and "\<forall>p\<in>set ps. \<not> sublist (placeholder key) p"
  shows "Template_render (join (placeholder key) ps) [(key, v)] raw
           = Inr (join (if raw then v else Template_escape v) ps)"
proof -
  have "Template_render (join (placeholder key) ps) [(key, v)] raw
          = Inr (render_literal (join (placeholder key) ps) [(key, v)] raw)"
    using Template_render_literal[of "[(key, v)]" "join (placeholder key) ps" raw] assms(1,2)
    by (simp add: own_properties_single)
  moreover have "render_literal (join (placeholder key) ps) [(key, v)] raw
          = join (if raw then v else Template_escape v) ps"
    using render_literal_passes[where data = "[]" and x = key and key = key and ps = ps
                                  and v = v and raw = raw] assms
    by simp
  ultimately show ?thesis by simp
qed

lemma literal_keys_absent_placeholder:
  assumes "list_all (\<lambda>kv. literal_key (fst kv)) data"
    and "''hasOwnProperty'' \<notin> fst ` set data"
    and "literal_key x" and "x \<notin> fst ` set data"
  shows "\<exists>a' b'. Template_render (a @ placeholder x @ b) data raw = Inr (a' @ placeholder x @ b')"
proof -
  have l: "list_all (\<lambda>kv. literal_key (fst kv)) (own_properties data)"
    using assms(1) by (simp add: list_all_iff set_own_properties)
  have x: "x \<notin> fst ` set (own_properties data)"
    using assms(4) by (simp add: set_own_properties)
  have ne: "[[]] \<noteq> ([] :: string list)" by simp
  have pc: "\<forall>p\<in>set [[]]. \<not> sublist (placeholder x) p"
    by (simp add: placeholder_def)
  from render_literal_passes[OF assms(3) l assms(3) x ne pc, of _ _ _ a b]
  obtain a' b' where
    "render_literal (a @ placeholder x @ b) (own_properties data) raw = a' @ placeholder x @ b'"
    by blast
  then have "Template_render (a @ placeholder x @ b) data raw = Inr (a' @ placeholder x @ b')"
    by (simp add: Template_render_literal[OF assms(1,2)])
  then show ?thesis by blast
qed

subsection \<open>Summarize: what holds of the render step and of other labels\<close>

text \<open>
  The render step leaves the document as it is, and throws nothing, when the anchor is
  absent or the totals are empty.  When the totals are Numbers and no label is
  \<open>hasOwnProperty\<close>, the anchor exists and the totals are not empty, the summary is
  inserted at the position of the anchor.
\<close>

lemma own_properties_Nil_iff: "own_properties obj = [] \<longleftrightarrow> obj = []"
  using length_own_properties[of obj] by (metis length_0_conv)

lemma render_silent:
  "getElementById TARGET_OUTPUT doc = None \<or> totals = [] \<Longrightarrow>
     Summarize_render totals doc = Inr doc"
  by (auto simp: Summarize_render_def Summarize_shouldRender_def own_properties_Nil_iff
           split: option.splits)

lemma format_entries_numeric:
  "list_all (\<lambda>kv. numeric_total (snd kv)) entries \<Longrightarrow> decimals \<le> 100 \<Longrightarrow>
     map_of totals ''hasOwnProperty'' = None \<Longrightarrow>
     \<exists>formatted. format_entries decimals totals entries acc = Inr formatted"
proof (induction entries arbitrary: acc)
  case Nil
  then show ?case by simp
next
  case (Cons kv entries)
  obtain k v where kv: "kv = (k, v)" by (cases kv)
  with Cons.prems obtain n where "v = Num n"
    by (cases v) (auto simp: numeric_total_def)
  with Cons kv show ?case by (simp add: hasOwnProperty_def)
qed

lemma formatTotals_numeric:
  assumes "list_all (\<lambda>kv. numeric_total (snd kv)) totals"
    and "''hasOwnProperty'' \<notin> fst ` set totals"
  shows "\<exists>formatted. Summarize_formatTotals totals None = Inr formatted"
proof -
  have "list_all (\<lambda>kv. numeric_total (snd kv)) (own_properties totals)"
    using assms(1) by (simp add: list_all_iff set_own_properties)
  moreover have "map_of totals ''hasOwnProperty'' = None"
    using assms(2) by (simp add: map_of_eq_None_iff)
  ultimately show ?thesis
    unfolding Summarize_formatTotals_def by (simp add: format_entries_numeric)
qed

lemma index_of_id_Some:
  "index_of_id i es = Some pos \<Longrightarrow>
     pos < length es \<and> elem_id (es ! pos) = i \<and> (\<forall>j<pos. elem_id (es ! j) \<noteq> i)"
proof (induction es arbitrary: pos)
  case Nil
  then show ?case by simp
next
  case (Cons e es)
  show ?case
  proof (cases "elem_id e = i")
    case True
    with Cons.prems show ?thesis by simp
  next
    case False
    with Cons.prems obtain p where p: "index_of_id i es = Some p" "pos = Suc p" by auto
    from Cons.IH[OF p(1)] False p(2) show ?thesis
      by (auto simp: nth_Cons split: nat.splits)
  qed
qed

lemma index_of_id_None:
  "index_of_id i es = None \<longleftrightarrow> (\<forall>e\<in>set es. elem_id e \<noteq> i)"
  by (induction es) auto

lemma render_inserts:
  assumes "list_all (\<lambda>kv. numeric_total (snd kv)) totals"
    and "''hasOwnProperty'' \<notin> fst ` set totals"
    and "getElementById TARGET_OUTPUT doc = Some pos" and "totals \<noteq> []"
  shows "\<exists>formatted.
           Summarize_formatTotals totals None = Inr formatted
           \<and> Summarize_render totals doc
               = Inr (doc\<lparr>page := take pos (page doc)
                                @ \<lparr>tag = ''div'', elem_id = OUTPUT_ID,
                                    innerHTML = markup_literal formatted\<rparr>
                                # drop pos (page doc)\<rparr>)
           \<and> pos < length (page doc)
           \<and> elem_id (page doc ! pos) = TARGET_OUTPUT"
proof -
  from formatTotals_numeric[OF assms(1,2)] obtain formatted
    where f: "Summarize_formatTotals totals None = Inr formatted" ..
  from summary_markup_of_totals[OF f]
  have m: "summary_markup formatted = Inr (markup_literal formatted)" by simp
  from assms(3) have idx: "pos < length (page doc)" "elem_id (page doc ! pos) = TARGET_OUTPUT"
    using index_of_id_Some[of TARGET_OUTPUT "page doc" pos] by (auto simp: getElementById_def)
  show ?thesis
    using assms(3,4) f m idx
    by (auto simp: Summarize_render_def Summarize_shouldRender_def own_properties_Nil_iff
        insertBefore_def)
qed

text \<open>
  A row whose note matches and whose hours text converts to \<open>NaN\<close> raises no error
  wherever it stands in the pass, and sets the total of its label to \<open>NaN\<close>, which it
  then is to the end of the pass, when the label is not the name of a property inherited
  from \<open>Object.prototype\<close>.
\<close>

lemma map_of_set_property:
  "map_of (set_property k v obj) k' =
     (if k' = k \<and> (map_of obj k \<noteq> None \<or> k \<noteq> ''__proto__'') then Some v else map_of obj k')"
proof -
  have upd: "map_of (map (\<lambda>kv. if fst kv = k then (k, v) else kv) xs) k'
             = (if k' = k \<and> map_of xs k \<noteq> None then Some v else map_of xs k')"
    for xs :: "(string \<times> 'a) list"
    by (induction xs) auto
  have app: "map_of xs k = None \<Longrightarrow>
             map_of (xs @ [(k, v)]) j = (if j = k then Some v else map_of xs j)"
    for xs :: "(string \<times> 'a) list" and j
    by (induction xs) (auto split: if_splits)
  show ?thesis
  proof (cases "map_of obj k")
    case None
    then show ?thesis by (simp add: set_property_def app del: map_of_append)
  next
    case (Some y)
    then show ?thesis by (simp add: set_property_def upd)
  qed
qed

lemma num_add_NaN_right [simp]: "num_add x NaN = NaN"
  by (cases x) simp_all

lemma get_property_NaN_step:
  assumes "get_property totals label = Own (Num NaN)"
    and "Summarize_row doc r totals = Inr totals'"
  shows "get_property totals' label = Own (Num NaN)"
proof -
  from assms(1) have m: "map_of totals label = Some (Num NaN)"
    by (auto simp: get_property_def split: option.splits if_splits)
  show ?thesis
    using assms(2) m assms(1)
    by (auto simp: Summarize_row_def Let_def get_property_def map_of_set_property
             split: option.splits if_splits)
qed

lemma get_property_NaN_items:
  "get_property totals label = Own (Num NaN) \<Longrightarrow> run_items (Summarize_row doc) rest totals = Inr final
     \<Longrightarrow> get_property final label = Own (Num NaN)"
proof (induction rest arbitrary: totals)
  case Nil
  then show ?case by simp
next
  case (Cons r rest)
  from Cons.prems(2) obtain t where t: "Summarize_row doc r totals = Inr t"
    "run_items (Summarize_row doc) rest t = Inr final"
    by (auto split: sum.splits)
  from get_property_NaN_step[OF Cons.prems(1) t(1)] Cons.IH t(2) show ?case by blast
qed

lemma own_totals_numeric_lookup:
  "own_totals_numeric totals \<Longrightarrow> map_of totals k = Some v \<Longrightarrow>
     k \<notin> set Object_prototype_names \<Longrightarrow> \<exists>n. v = Num n"
  by (cases v) (auto simp: own_totals_numeric_def list_all_iff numeric_total_def dest!: map_of_SomeD)

lemma own_totals_numeric_set_property:
  "own_totals_numeric totals \<Longrightarrow> k \<in> set Object_prototype_names \<or> numeric_total v \<Longrightarrow>
     own_totals_numeric (set_property k v totals)"
  using set_set_property[of k v totals]
  by (auto simp: own_totals_numeric_def list_all_iff)

lemma own_totals_numeric_row:
  assumes "own_totals_numeric totals" "Summarize_row doc r totals = Inr totals'"
  shows "own_totals_numeric totals'"
proof (cases "Xpath_find NOTE_CELL (trs doc ! r)")
  case None
  with assms(2) show ?thesis by (simp add: Summarize_row_def)
next
  case (Some noteNode)
  show ?thesis
  proof (cases "match_label (textContent noteNode)")
    case None
    with assms Some show ?thesis by (simp add: Summarize_row_def)
  next
    case l: (Some label)
    from assms(2) Some l obtain hourNode where
      h: "Xpath_find HOUR_CELL (trs doc ! r) = Some hourNode"
      by (cases "Xpath_find HOUR_CELL (trs doc ! r)") (auto simp: Summarize_row_def)
    define totals1 where "totals1 = (if get_property totals label = Undefined
                                   then set_property label (Num (Fin 0)) totals else totals)"
    have t1: "own_totals_numeric totals1"
      using assms(1) by (simp add: totals1_def own_totals_numeric_set_property numeric_total_def)
    have res: "totals' = set_property label
        (js_add (get_property totals1 label) (to_number (textContent hourNode))) totals1"
      using assms(2) Some l h by (simp add: Summarize_row_def totals1_def Let_def)
    have "label \<in> set Object_prototype_names
          \<or> numeric_total (js_add (get_property totals1 label) (to_number (textContent hourNode)))"
    proof (cases "label \<in> set Object_prototype_names")
      case False
      have "\<exists>n. get_property totals1 label = Own (Num n) \<or> get_property totals1 label = Undefined"
        using own_totals_numeric_lookup[OF t1 _ False] False
        by (auto simp: get_property_def split: option.splits)
      then show ?thesis by (auto simp: numeric_total_def)
    qed simp
    with t1 res show ?thesis by (simp add: own_totals_numeric_set_property)
  qed
qed

lemma own_totals_numeric_items:
  "own_totals_numeric totals \<Longrightarrow> run_items (Summarize_row doc) rows totals = Inr totals'
     \<Longrightarrow> own_totals_numeric totals'"
proof (induction rows arbitrary: totals)
  case Nil
  then show ?case by simp
next
  case (Cons r rows)
  from Cons.prems(2) obtain t where t: "Summarize_row doc r totals = Inr t"
    "run_items (Summarize_row doc) rows t = Inr totals'"
    by (auto split: sum.splits)
  from own_totals_numeric_row[OF Cons.prems(1) t(1)] Cons.IH t(2) show ?case by blast
qed

lemma run_items_append:
  "run_items cb (xs @ ys) s =
     (case run_items cb xs s of Inl e \<Rightarrow> Inl e | Inr s' \<Rightarrow> run_items cb ys s')"
  by (induction xs arbitrary: s) (auto split: sum.splits)

lemma Summarize_totals_items:
  "Summarize_totals (new_QueryResult rows) doc = run_items (Summarize_row doc) rows []"
  by (simp add: Summarize_totals_def forEach_run_items new_QueryResult_def split: sum.splits)

lemma nan_poisons_total:
  assumes "Xpath_find NOTE_CELL (trs doc ! row) = Some noteNode"
    and "match_label (textContent noteNode) = Some label"
    and "Xpath_find HOUR_CELL (trs doc ! row) = Some hourNode"
    and "to_number (textContent hourNode) = NaN"
    and "label \<notin> set Object_prototype_names"
  shows "(\<forall>before totals.
            Summarize_totals (new_QueryResult before) doc = Inr totals \<longrightarrow>
            (\<exists>totals'. Summarize_row doc row totals = Inr totals'
                       \<and> get_property totals' label = Own (Num NaN)))
         \<and> (\<forall>before after final.
              Summarize_totals (new_QueryResult (before @ row # after)) doc = Inr final \<longrightarrow>
              get_property final label = Own (Num NaN))"
proof -
  have proto: "label \<noteq> ''__proto__''"
    using assms(5) by (auto simp: Object_prototype_names_def)
  have step: "\<exists>totals'. Summarize_row doc row totals = Inr totals'
                \<and> get_property totals' label = Own (Num NaN)"
    if inv: "own_totals_numeric totals" for totals
  proof -
    define totals1 where "totals1 = (if get_property totals label = Undefined
                                   then set_property label (Num (Fin 0)) totals else totals)"
    define totals' where
      "totals' = set_property label (js_add (get_property totals1 label) NaN) totals1"
    have row: "Summarize_row doc row totals = Inr totals'"
      using assms(1-4) by (simp add: Summarize_row_def totals'_def totals1_def Let_def)
    have "\<exists>n. get_property totals1 label = Own (Num n)"
    proof (cases "map_of totals label")
      case None
      then show ?thesis using assms(5) proto
        by (simp add: totals1_def get_property_def map_of_set_property)
    next
      case (Some v)
      with own_totals_numeric_lookup[OF inv Some assms(5)] show ?thesis
        by (auto simp: totals1_def get_property_def)
    qed
    then obtain n where n: "get_property totals1 label = Own (Num n)" ..
    have "get_property totals' label = Own (Num NaN)"
      using n proto by (simp add: totals'_def get_property_def map_of_set_property)
    with row show ?thesis by blast
  qed
  have empty: "own_totals_numeric []" by (simp add: own_totals_numeric_def)
  show ?thesis
  proof (intro conjI allI impI)
    fix before totals
    assume "Summarize_totals (new_QueryResult before) doc = Inr totals"
    then have "own_totals_numeric totals"
      using own_totals_numeric_items[OF empty] by (simp add: Summarize_totals_items)
    then show "\<exists>totals'. Summarize_row doc row totals = Inr totals'
                \<and> get_property totals' label = Own (Num NaN)"
      by (rule step)
  next
    fix before after final
    assume "Summarize_totals (new_QueryResult (before @ row # after)) doc = Inr final"
    then obtain mid where mid: "run_items (Summarize_row doc) before [] = Inr mid"
      "run_items (Summarize_row doc) (row # after) mid = Inr final"
      by (auto simp: Summarize_totals_items run_items_append split: sum.splits)
    from step[OF own_totals_numeric_items[OF empty mid(1)]] obtain totals' where
      t: "Summarize_row doc row mid = Inr totals'" "get_property totals' label = Own (Num NaN)"
      by blast
    with mid(2) have "run_items (Summarize_row doc) after totals' = Inr final" by simp
    with t(2) show "get_property final label = Own (Num NaN)"
      by (rule get_property_NaN_items)
  qed
qed

end
